theory Spec2Isabelle
  imports Complex_Main
begin

section \<open>The optimizers of npdl/optimizers.py\<close>

text \<open>
  The module mutates numpy arrays in place and stores lists of arrays in optimizer
  objects, so the model has an explicit store. An array object is an address into
  \<open>arrays\<close>, an optimizer object an address into \<open>objs\<close>; allocation appends, so
  the fresh address is the length of the list. A float64 is idealised as a real number
  (rounding, infinities and NaN are outside the model), and an array is one-dimensional:
  the list of its elements.
\<close>

type_synonym ref = nat

type_synonym ndarray = "real list"

datatype error = NotImplementedError | ValueError string

text \<open>
  One constructor per class, carrying the attributes its \<open>__init__\<close> chain assigns:
  \<open>lr\<close> and \<open>clip\<close> from \<open>Optimizer.__init__\<close>, then \<open>momentum\<close> and \<open>velocity\<close>
  (Momentum, NesterovMomentum) or \<open>epsilon\<close> and \<open>cache\<close> (Adagrad).
  \<open>None\<close> in \<open>velocity\<close> and \<open>cache\<close> is Python's \<open>None\<close>.
\<close>

datatype optimizer =
    Optimizer (lr: real) (clip: real)
  | SGD (lr: real) (clip: real)
  | Momentum (lr: real) (clip: real) (momentum: real) (velocity: "ref list option")
  | NesterovMomentum (lr: real) (clip: real) (momentum: real) (velocity: "ref list option")
  | Adagrad (lr: real) (clip: real) (epsilon: real) (cache: "ref list option")
  | RMSprop (lr: real) (clip: real)
  | Adadelta (lr: real) (clip: real)
  | Adam (lr: real) (clip: real)
  | Adamax (lr: real) (clip: real)

record heap =
  arrays :: "ndarray list"
  objs :: "optimizer list"

subsection \<open>The numpy operations the module uses\<close>

text \<open>\<open>k * a\<close> for a Python float \<open>k\<close> and an array \<open>a\<close>.\<close>

definition scale :: "real \<Rightarrow> ndarray \<Rightarrow> ndarray" where
  "scale k a = map (\<lambda>x. k * x) a"

text \<open>\<open>np.clip(a, lo, hi)\<close>, that is \<open>minimum(maximum(a, lo), hi)\<close>; a new array.\<close>

definition np_clip :: "ndarray \<Rightarrow> real \<Rightarrow> real \<Rightarrow> ndarray" where
  "np_clip a lo hi = map (\<lambda>x. min (max x lo) hi) a"

text \<open>\<open>np.power(a, 2)\<close>.\<close>

definition np_power :: "ndarray \<Rightarrow> nat \<Rightarrow> ndarray" where
  "np_power a n = map (\<lambda>x. x ^ n) a"

text \<open>\<open>np.sqrt(a) + k\<close> for a Python float \<open>k\<close>.\<close>

definition sqrt_plus :: "ndarray \<Rightarrow> real \<Rightarrow> ndarray" where
  "sqrt_plus a k = map (\<lambda>x. sqrt x + k) a"

text \<open>
  A binary operator on two arrays follows numpy's broadcasting of one-dimensional
  shapes: equal lengths combine elementwise, a length-1 operand is stretched, anything
  else raises ValueError.
\<close>

definition broadcast_error :: error where
  "broadcast_error = ValueError ''operands could not be broadcast together''"

definition broadcast :: "(real \<Rightarrow> real \<Rightarrow> real) \<Rightarrow> ndarray \<Rightarrow> ndarray \<Rightarrow> error + ndarray" where
  "broadcast f a b =
     (if length a = length b then Inr (map2 f a b)
      else if length b = 1 then Inr (map (\<lambda>x. f x (hd b)) a)
      else if length a = 1 then Inr (map (\<lambda>y. f (hd a) y) b)
      else Inl broadcast_error)"

text \<open>
  An augmented assignment \<open>p += x\<close>, \<open>p -= x\<close> on an array writes into the array
  object \<open>p\<close>: the result must have the shape of \<open>p\<close>, so \<open>x\<close> has the length of \<open>p\<close>
  or length 1. On a ValueError nothing is written.
\<close>

definition inplace :: "(real \<Rightarrow> real \<Rightarrow> real) \<Rightarrow> ref \<Rightarrow> ndarray \<Rightarrow> ndarray list \<Rightarrow> (error + unit) \<times> ndarray list" where
  "inplace f p x A =
     (if length x = length (A ! p) then (Inr (), A[p := map2 f (A ! p) x])
      else if length x = 1 then (Inr (), A[p := map (\<lambda>y. f y (hd x)) (A ! p)])
      else (Inl broadcast_error, A))"

definition iadd :: "ref \<Rightarrow> ndarray \<Rightarrow> ndarray list \<Rightarrow> (error + unit) \<times> ndarray list" where
  "iadd = inplace (+)"

definition isub :: "ref \<Rightarrow> ndarray \<Rightarrow> ndarray list \<Rightarrow> (error + unit) \<times> ndarray list" where
  "isub = inplace (-)"

text \<open>
  Modelled from the spec: \<open>_zero\<close> is imported from \<open>npdl/initializations.py\<close>, which is
  not among the sources; the spec has the state arrays ``zero-filled'' and
  ``shaped like each tracked parameter''. The shape of a one-dimensional array is its
  length.
\<close>

definition zero_array :: "nat \<Rightarrow> ndarray" where
  "zero_array n = replicate n 0"

text \<open>
  The comprehension \<open>[_zero(p.shape) for p in params]\<close>: one new array per element,
  at consecutive fresh addresses. It returns the list of the new addresses.
\<close>

definition zeros_like :: "ref list \<Rightarrow> ndarray list \<Rightarrow> ref list \<times> ndarray list" where
  "zeros_like rs A =
     ([length A ..< length A + length rs], A @ map (\<lambda>r. zero_array (length (A ! r))) rs)"

subsection \<open>npdl_clip\<close>

definition npdl_clip :: "ndarray \<Rightarrow> real \<Rightarrow> ndarray" where
  "npdl_clip grad boundary =
     (if boundary > 0 then np_clip grad (- boundary) boundary else grad)"

subsection \<open>The update methods\<close>

text \<open>\<open>Optimizer.update\<close>, inherited by RMSprop, Adadelta, Adam and Adamax.\<close>

definition Optimizer_update :: "ref \<Rightarrow> ref list \<Rightarrow> ref list \<Rightarrow> heap \<Rightarrow> (error + unit) \<times> heap" where
  "Optimizer_update self params grads h = (Inl NotImplementedError, h)"

text \<open>
  Each loop runs over \<open>zip\<close>, which stops at the shortest of its arguments. An exception
  leaves the loop with the writes made so far in place.
\<close>

fun SGD_loop :: "real \<Rightarrow> real \<Rightarrow> ref list \<Rightarrow> ref list \<Rightarrow> ndarray list \<Rightarrow> (error + unit) \<times> ndarray list" where
  "SGD_loop l c (p # ps) (g # gs) A =
     (case isub p (scale l (npdl_clip (A ! g) c)) A of
        (Inl e, A') \<Rightarrow> (Inl e, A')
      | (Inr u, A') \<Rightarrow> SGD_loop l c ps gs A')"
| "SGD_loop l c ps gs A = (Inr (), A)"

definition SGD_update :: "real \<Rightarrow> real \<Rightarrow> ref list \<Rightarrow> ref list \<Rightarrow> heap \<Rightarrow> (error + unit) \<times> heap" where
  "SGD_update l c params grads h =
     (case SGD_loop l c params grads (arrays h) of (r, A) \<Rightarrow> (r, h\<lparr>arrays := A\<rparr>))"

text \<open>
  In \<open>Momentum.update\<close> the statement \<open>v = self.momentum * v - self.lr * g\<close> binds the
  loop variable \<open>v\<close> to a new array; the array in \<open>self.velocity\<close> is not written.
\<close>

fun Momentum_loop :: "real \<Rightarrow> real \<Rightarrow> ref list \<Rightarrow> ref list \<Rightarrow> ref list \<Rightarrow> ndarray list \<Rightarrow> (error + unit) \<times> ndarray list" where
  "Momentum_loop m l (v # vs) (p # ps) (g # gs) A =
     (case broadcast (-) (scale m (A ! v)) (scale l (A ! g)) of
        Inl e \<Rightarrow> (Inl e, A)
      | Inr v' \<Rightarrow>
          (case iadd p v' A of
             (Inl e, A') \<Rightarrow> (Inl e, A')
           | (Inr u, A') \<Rightarrow> Momentum_loop m l vs ps gs A'))"
| "Momentum_loop m l vs ps gs A = (Inr (), A)"

definition Momentum_update :: "ref \<Rightarrow> real \<Rightarrow> real \<Rightarrow> real \<Rightarrow> ref list option \<Rightarrow> ref list \<Rightarrow> ref list \<Rightarrow> heap \<Rightarrow> (error + unit) \<times> heap" where
  "Momentum_update self l c m vel params grads h =
     (case (case vel of
              None \<Rightarrow> (case zeros_like params (arrays h) of
                         (zs, A) \<Rightarrow> (zs, \<lparr>arrays = A, objs = (objs h)[self := Momentum l c m (Some zs)]\<rparr>))
            | Some vs \<Rightarrow> (vs, h)) of
        (vs, h1) \<Rightarrow>
          (case Momentum_loop m l vs params grads (arrays h1) of
             (r, A') \<Rightarrow> (r, h1\<lparr>arrays := A'\<rparr>)))"

fun NesterovMomentum_loop :: "real \<Rightarrow> real \<Rightarrow> ref list \<Rightarrow> ref list \<Rightarrow> ref list \<Rightarrow> ndarray list \<Rightarrow> (error + unit) \<times> ndarray list" where
  "NesterovMomentum_loop m l (v # vs) (p # ps) (g # gs) A =
     (case broadcast (-) (scale m (A ! v)) (scale l (A ! g)) of
        Inl e \<Rightarrow> (Inl e, A)
      | Inr v' \<Rightarrow>
          (case broadcast (-) (scale m v') (scale l (A ! g)) of
             Inl e \<Rightarrow> (Inl e, A)
           | Inr d \<Rightarrow>
               (case iadd p d A of
                  (Inl e, A') \<Rightarrow> (Inl e, A')
                | (Inr u, A') \<Rightarrow> NesterovMomentum_loop m l vs ps gs A')))"
| "NesterovMomentum_loop m l vs ps gs A = (Inr (), A)"

definition NesterovMomentum_update :: "ref \<Rightarrow> real \<Rightarrow> real \<Rightarrow> real \<Rightarrow> ref list option \<Rightarrow> ref list \<Rightarrow> ref list \<Rightarrow> heap \<Rightarrow> (error + unit) \<times> heap" where
  "NesterovMomentum_update self l c m vel params grads h =
     (case (case vel of
              None \<Rightarrow> (case zeros_like params (arrays h) of
                         (zs, A) \<Rightarrow> (zs, \<lparr>arrays = A, objs = (objs h)[self := NesterovMomentum l c m (Some zs)]\<rparr>))
            | Some vs \<Rightarrow> (vs, h)) of
        (vs, h1) \<Rightarrow>
          (case NesterovMomentum_loop m l vs params grads (arrays h1) of
             (r, A') \<Rightarrow> (r, h1\<lparr>arrays := A'\<rparr>)))"

text \<open>
  In \<open>Adagrad.update\<close> the statement \<open>c += np.power(g, 2)\<close> writes into the array of
  \<open>self.cache\<close>. The quotient \<open>self.lr * g / (np.sqrt(c) + self.epsilon)\<close> reads the
  arrays after that write.
\<close>

fun Adagrad_loop :: "real \<Rightarrow> real \<Rightarrow> ref list \<Rightarrow> ref list \<Rightarrow> ref list \<Rightarrow> ndarray list \<Rightarrow> (error + unit) \<times> ndarray list" where
  "Adagrad_loop l eps (c # cs) (p # ps) (g # gs) A =
     (case iadd c (np_power (A ! g) 2) A of
        (Inl e, A1) \<Rightarrow> (Inl e, A1)
      | (Inr u, A1) \<Rightarrow>
          (case broadcast (/) (scale l (A1 ! g)) (sqrt_plus (A1 ! c) eps) of
             Inl e \<Rightarrow> (Inl e, A1)
           | Inr d \<Rightarrow>
               (case isub p d A1 of
                  (Inl e, A2) \<Rightarrow> (Inl e, A2)
                | (Inr u, A2) \<Rightarrow> Adagrad_loop l eps cs ps gs A2)))"
| "Adagrad_loop l eps cs ps gs A = (Inr (), A)"

definition Adagrad_update :: "ref \<Rightarrow> real \<Rightarrow> real \<Rightarrow> real \<Rightarrow> ref list option \<Rightarrow> ref list \<Rightarrow> ref list \<Rightarrow> heap \<Rightarrow> (error + unit) \<times> heap" where
  "Adagrad_update self l c eps ch params grads h =
     (case (case ch of
              None \<Rightarrow> (case zeros_like grads (arrays h) of
                         (zs, A) \<Rightarrow> (zs, \<lparr>arrays = A, objs = (objs h)[self := Adagrad l c eps (Some zs)]\<rparr>))
            | Some cs \<Rightarrow> (cs, h)) of
        (cs, h1) \<Rightarrow>
          (case Adagrad_loop l eps cs params grads (arrays h1) of
             (r, A') \<Rightarrow> (r, h1\<lparr>arrays := A'\<rparr>)))"

text \<open>
  The call \<open>optimizer.update(params, grads)\<close>: the method of the class of the object
  at \<open>self\<close>, with the attributes the method reads.
\<close>

definition update :: "ref \<Rightarrow> ref list \<Rightarrow> ref list \<Rightarrow> heap \<Rightarrow> (error + unit) \<times> heap" where
  "update self params grads h =
     (case objs h ! self of
        Optimizer l c \<Rightarrow> Optimizer_update self params grads h
      | SGD l c \<Rightarrow> SGD_update l c params grads h
      | Momentum l c m vel \<Rightarrow> Momentum_update self l c m vel params grads h
      | NesterovMomentum l c m vel \<Rightarrow> NesterovMomentum_update self l c m vel params grads h
      | Adagrad l c eps ch \<Rightarrow> Adagrad_update self l c eps ch params grads h
      | RMSprop l c \<Rightarrow> Optimizer_update self params grads h
      | Adadelta l c \<Rightarrow> Optimizer_update self params grads h
      | Adam l c \<Rightarrow> Optimizer_update self params grads h
      | Adamax l c \<Rightarrow> Optimizer_update self params grads h)"

subsection \<open>Construction and lookup: get\<close>

text \<open>
  The argument of \<open>get\<close> is any Python object: a \<open>str\<close>, an instance of
  \<open>Optimizer\<close> or of a subclass (an address into \<open>objs\<close>), or an object of another
  class, of which only the class name (not \<open>str\<close>) is read.
\<close>

datatype pyobj = Str string | Instance ref | Other string

text \<open>A constructor call allocates the object and returns its address.\<close>

definition new_obj :: "optimizer \<Rightarrow> heap \<Rightarrow> (error + ref) \<times> heap" where
  "new_obj ob h = (Inr (length (objs h)), h\<lparr>objs := objs h @ [ob]\<rparr>)"

text \<open>
  \<open>copy.deepcopy\<close> copies every array reachable from the object once: the memo maps
  the address of an array already copied to the address of its copy. Floats and
  \<open>None\<close> are immutable and copied as they are.
\<close>

fun deepcopy_arrays :: "ref list \<Rightarrow> (ref \<times> ref) list \<Rightarrow> ndarray list \<Rightarrow> ref list \<times> (ref \<times> ref) list \<times> ndarray list" where
  "deepcopy_arrays [] memo A = ([], memo, A)"
| "deepcopy_arrays (a # as) memo A =
     (case map_of memo a of
        Some b \<Rightarrow>
          (case deepcopy_arrays as memo A of (bs, memo', A') \<Rightarrow> (b # bs, memo', A'))
      | None \<Rightarrow>
          (case deepcopy_arrays as ((a, length A) # memo) (A @ [A ! a]) of
             (bs, memo', A') \<Rightarrow> (length A # bs, memo', A')))"

definition deepcopy_attr :: "ref list option \<Rightarrow> ndarray list \<Rightarrow> ref list option \<times> ndarray list" where
  "deepcopy_attr x A =
     (case x of
        None \<Rightarrow> (None, A)
      | Some rs \<Rightarrow> (case deepcopy_arrays rs [] A of (rs', memo, A') \<Rightarrow> (Some rs', A')))"

definition deepcopy :: "ref \<Rightarrow> heap \<Rightarrow> (error + ref) \<times> heap" where
  "deepcopy r h =
     (case objs h ! r of
        Optimizer l c \<Rightarrow> new_obj (Optimizer l c) h
      | SGD l c \<Rightarrow> new_obj (SGD l c) h
      | Momentum l c m vel \<Rightarrow>
          (case deepcopy_attr vel (arrays h) of
             (vel', A) \<Rightarrow> new_obj (Momentum l c m vel') (h\<lparr>arrays := A\<rparr>))
      | NesterovMomentum l c m vel \<Rightarrow>
          (case deepcopy_attr vel (arrays h) of
             (vel', A) \<Rightarrow> new_obj (NesterovMomentum l c m vel') (h\<lparr>arrays := A\<rparr>))
      | Adagrad l c eps ch \<Rightarrow>
          (case deepcopy_attr ch (arrays h) of
             (ch', A) \<Rightarrow> new_obj (Adagrad l c eps ch') (h\<lparr>arrays := A\<rparr>))
      | RMSprop l c \<Rightarrow> new_obj (RMSprop l c) h
      | Adadelta l c \<Rightarrow> new_obj (Adadelta l c) h
      | Adam l c \<Rightarrow> new_obj (Adam l c) h
      | Adamax l c \<Rightarrow> new_obj (Adamax l c) h)"

text \<open>
  The defaults of the constructors: \<open>lr=0.001\<close>, \<open>clip=-1\<close>, \<open>momentum=0.9\<close>,
  \<open>epsilon=1e-6\<close>; \<open>velocity\<close> and \<open>cache\<close> start as \<open>None\<close>.
\<close>

definition get :: "pyobj \<Rightarrow> heap \<Rightarrow> (error + ref) \<times> heap" where
  "get optimizer h =
     (case optimizer of
        Str s \<Rightarrow>
          if s \<in> set [''sgd'', ''SGD''] then new_obj (SGD 0.001 (- 1)) h
          else if s \<in> set [''momentum'', ''Momentum''] then new_obj (Momentum 0.001 (- 1) 0.9 None) h
          else if s \<in> set [''nesterov_momentum'', ''NesterovMomentum'']
            then new_obj (NesterovMomentum 0.001 (- 1) 0.9 None) h
          else if s \<in> set [''adagrad'', ''Adagrad''] then new_obj (Adagrad 0.001 (- 1) 0.000001 None) h
          else if s \<in> set [''rmsprop'', ''RMSprop''] then new_obj (RMSprop 0.001 (- 1)) h
          else if s \<in> set [''adadelta'', ''Adadelta''] then new_obj (Adadelta 0.001 (- 1)) h
          else if s \<in> set [''adam'', ''Adam''] then new_obj (Adam 0.001 (- 1)) h
          else if s \<in> set [''adamax'', ''Adamax''] then new_obj (Adamax 0.001 (- 1)) h
          else (Inl (ValueError (''Unknown optimizer name: '' @ s @ ''.'')), h)
      | Instance r \<Rightarrow> deepcopy r h
      | Other cname \<Rightarrow> (Inl (ValueError (''Unknown type: '' @ cname @ ''.'')), h))"

subsection \<open>Notions the statements below use\<close>

text \<open>
  The spec resolves a name by a ``case-insensitive match''. This definition follows
  the spec's words, not the code: two strings match when they are equal after
  lower-casing the ASCII letters, as Python's \<open>str.lower\<close> does on them.
\<close>

definition lower_char :: "char \<Rightarrow> char" where
  "lower_char ch =
     (case map_of (zip ''ABCDEFGHIJKLMNOPQRSTUVWXYZ'' ''abcdefghijklmnopqrstuvwxyz'') ch of
        Some l \<Rightarrow> l
      | None \<Rightarrow> ch)"

definition case_insensitive_match :: "string \<Rightarrow> string \<Rightarrow> bool" where
  "case_insensitive_match s name = (map lower_char s = map lower_char name)"

text \<open>The state arrays an optimizer object refers to.\<close>

fun aux_arrays :: "optimizer \<Rightarrow> ref list" where
  "aux_arrays (Momentum l c m (Some vs)) = vs"
| "aux_arrays (NesterovMomentum l c m (Some vs)) = vs"
| "aux_arrays (Adagrad l c eps (Some cs)) = cs"
| "aux_arrays ob = []"

text \<open>The step of SGD on one parameter: \<open>p - lr * clip(g)\<close>, elementwise.\<close>

definition sgd_step :: "real \<Rightarrow> real \<Rightarrow> ndarray \<Rightarrow> ndarray \<Rightarrow> ndarray" where
  "sgd_step l c p g = map2 (\<lambda>x y. x - l * y) p (npdl_clip g c)"

text \<open>
  The steps of Adagrad on one parameter, elementwise: the accumulator gains \<open>g\<^sup>2\<close>, and
  the parameter loses \<open>lr * g / (sqrt(c) + epsilon)\<close>, with \<open>c\<close> the accumulator after
  the gain.
\<close>

definition adagrad_cache :: "ndarray \<Rightarrow> ndarray \<Rightarrow> ndarray" where
  "adagrad_cache c g = map2 (\<lambda>x y. x + y ^ 2) c g"

definition adagrad_step :: "real \<Rightarrow> real \<Rightarrow> ndarray \<Rightarrow> ndarray \<Rightarrow> ndarray \<Rightarrow> ndarray" where
  "adagrad_step l eps p g c = map2 (\<lambda>x (y, z). x - l * y / (sqrt z + eps)) p (zip g c)"

text \<open>
  The state of \<open>self.cache\<close> between calls: \<open>None\<close> before the first call; afterwards
  one accumulator per parameter, distinct arrays that are neither parameters nor
  gradients, each of the shape of its gradient, with no negative element.
  \<open>cache_refs\<close> is the list \<open>self.cache\<close> holds when the loop starts (fresh addresses on
  the first call), \<open>cache_before\<close> the value of accumulator \<open>i\<close> at that moment (zero on
  the first call).
\<close>

fun cache_ok :: "ndarray list \<Rightarrow> ref list option \<Rightarrow> ref list \<Rightarrow> ref list \<Rightarrow> bool" where
  "cache_ok A None ps gs = True"
| "cache_ok A (Some cs) ps gs =
     (length cs = length ps \<and> distinct cs \<and> set cs \<inter> set ps = {} \<and> set cs \<inter> set gs = {} \<and>
      (\<forall>i<length cs. cs ! i < length A \<and> length (A ! (cs ! i)) = length (A ! (gs ! i)) \<and>
         (\<forall>j<length (A ! (cs ! i)). 0 \<le> A ! (cs ! i) ! j)))"

definition cache_refs :: "ndarray list \<Rightarrow> ref list option \<Rightarrow> ref list \<Rightarrow> ref list" where
  "cache_refs A ch gs =
     (case ch of None \<Rightarrow> [length A ..< length A + length gs] | Some cs \<Rightarrow> cs)"

definition cache_before :: "ndarray list \<Rightarrow> ref list option \<Rightarrow> ref list \<Rightarrow> nat \<Rightarrow> ndarray" where
  "cache_before A ch gs i =
     (case ch of None \<Rightarrow> zero_array (length (A ! (gs ! i))) | Some cs \<Rightarrow> A ! (cs ! i))"

text \<open>
  The state attribute of an optimizer object (\<open>velocity\<close> or \<open>cache\<close>; \<open>None\<close> also for
  a class without one), and the object with another value of that attribute: two
  objects agree in class and hyperparameters when they are equal after \<open>with_aux\<close>.
\<close>

fun aux_attr :: "optimizer \<Rightarrow> ref list option" where
  "aux_attr (Momentum l c m vel) = vel"
| "aux_attr (NesterovMomentum l c m vel) = vel"
| "aux_attr (Adagrad l c eps ch) = ch"
| "aux_attr ob = None"

fun with_aux :: "optimizer \<Rightarrow> ref list option \<Rightarrow> optimizer" where
  "with_aux (Momentum l c m vel) x = Momentum l c m x"
| "with_aux (NesterovMomentum l c m vel) x = NesterovMomentum l c m x"
| "with_aux (Adagrad l c eps ch) x = Adagrad l c eps x"
| "with_aux ob x = ob"

text \<open>
  The steps of Momentum and NesterovMomentum on one parameter, from the velocity array
  the loop reads: \<open>p + (momentum * v - lr * g)\<close> and
  \<open>p + (momentum * (momentum * v - lr * g) - lr * g)\<close>, elementwise.
\<close>

definition momentum_step :: "real \<Rightarrow> real \<Rightarrow> ndarray \<Rightarrow> ndarray \<Rightarrow> ndarray \<Rightarrow> ndarray" where
  "momentum_step m l v p g = map2 (+) p (map2 (-) (scale m v) (scale l g))"

definition nesterov_step :: "real \<Rightarrow> real \<Rightarrow> ndarray \<Rightarrow> ndarray \<Rightarrow> ndarray \<Rightarrow> ndarray" where
  "nesterov_step m l v p g =
     map2 (+) p (map2 (-) (scale m (map2 (-) (scale m v) (scale l g))) (scale l g))"





section \<open>Evaluation\<close>

lemmas numpy_defs =
  scale_def np_clip_def np_power_def sqrt_plus_def broadcast_def inplace_def
  iadd_def isub_def zero_array_def zeros_like_def npdl_clip_def

lemmas update_defs =
  update_def Optimizer_update_def SGD_update_def Momentum_update_def
  NesterovMomentum_update_def Adagrad_update_def

section \<open>The velocity of Momentum and NesterovMomentum\<close>

text \<open>
  C1. The claim: from \<open>p = 1.0\<close>, \<open>g = 1.0\<close>, \<open>momentum = 0.9\<close>, \<open>lr = 0.1\<close> and a
  zero velocity, the first call of \<open>Momentum.update\<close> gives \<open>v = -0.1\<close>, \<open>p = 0.9\<close> and
  the second \<open>v = -0.19\<close>, \<open>p = 0.71\<close>, the velocity array persisting across calls.
  The code: the parameter (address 0) is 0.9 after the first call and 0.8, not 0.71,
  after the second, and the velocity array (address 2) holds 0 after both, since the
  loop assigns the new velocity to its loop variable only.
\<close>

theorem Momentum_update_velocity_stays_zero:
  "update 0 [0] [1] \<lparr>arrays = [[1], [1]], objs = [Momentum 0.1 (- 1) 0.9 None]\<rparr> =
     (Inr (), \<lparr>arrays = [[0.9], [1], [0]], objs = [Momentum 0.1 (- 1) 0.9 (Some [2])]\<rparr>)
   \<and> update 0 [0] [1] \<lparr>arrays = [[0.9], [1], [0]], objs = [Momentum 0.1 (- 1) 0.9 (Some [2])]\<rparr> =
     (Inr (), \<lparr>arrays = [[0.8], [1], [0]], objs = [Momentum 0.1 (- 1) 0.9 (Some [2])]\<rparr>)"
  by (simp add: update_defs numpy_defs)

text \<open>
  C7. The claim: \<open>NesterovMomentum.update\<close> applies \<open>v := momentum * v - lr * g\<close> and
  \<open>p := p + momentum * v - lr * g\<close> with \<open>v\<close> the velocity persisted from the call
  before. The code, from \<open>p = 1.0\<close>, \<open>g = 1.0\<close>, \<open>momentum = 0.9\<close>, \<open>lr = 0.1\<close>: the first
  call gives \<open>p = 0.81\<close>, as claimed, and leaves the velocity array at 0; the second
  call therefore gives \<open>p = 0.62\<close>, where the persisted velocity -0.1 would give
  \<open>v = -0.19\<close> and \<open>p = 0.81 - 0.171 - 0.1 = 0.539\<close>.
\<close>

theorem NesterovMomentum_update_velocity_stays_zero:
  "update 0 [0] [1] \<lparr>arrays = [[1], [1]], objs = [NesterovMomentum 0.1 (- 1) 0.9 None]\<rparr> =
     (Inr (), \<lparr>arrays = [[0.81], [1], [0]], objs = [NesterovMomentum 0.1 (- 1) 0.9 (Some [2])]\<rparr>)
   \<and> update 0 [0] [1] \<lparr>arrays = [[0.81], [1], [0]], objs = [NesterovMomentum 0.1 (- 1) 0.9 (Some [2])]\<rparr> =
     (Inr (), \<lparr>arrays = [[0.62], [1], [0]], objs = [NesterovMomentum 0.1 (- 1) 0.9 (Some [2])]\<rparr>)"
  by (simp add: update_defs numpy_defs)

section \<open>Gradient clipping\<close>

text \<open>
  C2. The claim: every optimizer uses the clipped gradient, so with \<open>clip = c > 0\<close> no
  gradient element of magnitude above \<open>c\<close> enters the formula, for Momentum as for
  SGD. The code, with \<open>lr = 0.1\<close>, \<open>clip = 1\<close>, \<open>p = 1.0\<close>, \<open>g = 5.0\<close>: SGD steps by the
  clipped gradient 1 to \<open>p = 0.9\<close>; Momentum, NesterovMomentum and Adagrad never call
  \<open>npdl_clip\<close> and step by the gradient 5 itself (Momentum to \<open>p = 0.5\<close>).
\<close>

theorem Momentum_update_ignores_clip:
  "update 0 [0] [1] \<lparr>arrays = [[1], [5]], objs = [SGD 0.1 1]\<rparr> =
     (Inr (), \<lparr>arrays = [[0.9], [5]], objs = [SGD 0.1 1]\<rparr>)
   \<and> update 0 [0] [1] \<lparr>arrays = [[1], [5]], objs = [Momentum 0.1 1 0.9 None]\<rparr> =
     (Inr (), \<lparr>arrays = [[0.5], [5], [0]], objs = [Momentum 0.1 1 0.9 (Some [2])]\<rparr>)
   \<and> update 0 [0] [1] \<lparr>arrays = [[1], [5]], objs = [NesterovMomentum 0.1 1 0.9 None]\<rparr> =
     (Inr (), \<lparr>arrays = [[0.05], [5], [0]], objs = [NesterovMomentum 0.1 1 0.9 (Some [2])]\<rparr>)
   \<and> update 0 [0] [1] \<lparr>arrays = [[1], [5]], objs = [Adagrad 0.1 1 1 None]\<rparr> =
     (Inr (), \<lparr>arrays = [[1 - 0.5 / 6], [5], [25]], objs = [Adagrad 0.1 1 1 (Some [2])]\<rparr>)"
  by (simp add: update_defs numpy_defs)

section \<open>The classes without an update method\<close>

text \<open>
  C4. The claim: \<open>Adam.update\<close> keeps a step counter and two moment arrays and moves
  every parameter by the bias-corrected formula. The code: class Adam defines
  \<open>__init__\<close> only, so the call reaches \<open>Optimizer.update\<close>, which raises
  NotImplementedError; the parameter keeps its value 1.0 and the object holds neither
  counter nor moments.
\<close>

theorem Adam_update_not_implemented:
  "update 0 [0] [1] \<lparr>arrays = [[1], [1]], objs = [Adam 0.001 (- 1)]\<rparr> =
     (Inl NotImplementedError, \<lparr>arrays = [[1], [1]], objs = [Adam 0.001 (- 1)]\<rparr>)"
  by (simp add: update_defs)

text \<open>
  C5. For an instance of RMSprop, Adadelta, Adam or Adamax, or of the base class
  Optimizer, \<open>update\<close> raises NotImplementedError on every input, and the store (the
  parameters, the gradients and every optimizer object) is as it was.
\<close>

theorem update_stub_raises:
  assumes "objs h ! self \<in> {Optimizer l c, RMSprop l c, Adadelta l c, Adam l c, Adamax l c}"
  shows "update self params grads h = (Inl NotImplementedError, h)"
  using assms by (auto simp: update_defs)

theorem update_stub_raises_witness:
  "objs \<lparr>arrays = [[1, 2], [3, 4]], objs = [SGD 0.1 1, RMSprop 0.5 2]\<rparr> ! 1
     \<in> {Optimizer 0.5 2, RMSprop 0.5 2, Adadelta 0.5 2, Adam 0.5 2, Adamax 0.5 2}
   \<and> update 1 [0] [1] \<lparr>arrays = [[1, 2], [3, 4]], objs = [SGD 0.1 1, RMSprop 0.5 2]\<rparr> =
     (Inl NotImplementedError, \<lparr>arrays = [[1, 2], [3, 4]], objs = [SGD 0.1 1, RMSprop 0.5 2]\<rparr>)"
  using update_stub_raises [of "\<lparr>arrays = [[1, 2], [3, 4]], objs = [SGD 0.1 1, RMSprop 0.5 2]\<rparr>" 1 "0.5" 2 "[0]" "[1]"]
  by simp

section \<open>Registry names\<close>

text \<open>
  C6, as stated. The claim: every string that matches one of the eight names
  case-insensitively resolves to a fresh default instance. The string \<open>ADAM\<close> matches
  \<open>adam\<close> case-insensitively, and \<open>get\<close> raises ValueError on it: the code compares
  the string with two fixed spellings of each name.
\<close>

theorem get_ADAM_raises:
  "case_insensitive_match ''ADAM'' ''adam''
   \<and> get (Str ''ADAM'') \<lparr>arrays = [], objs = []\<rparr> =
       (Inl (ValueError ''Unknown optimizer name: ADAM.''), \<lparr>arrays = [], objs = []\<rparr>)"
  by (simp add: get_def case_insensitive_match_def lower_char_def)

text \<open>
  C6, amended. For each of the sixteen spellings the code lists (the lower-case name
  and the class name of each optimizer), \<open>get\<close> allocates a new object of that class
  with the default hyperparameters and returns its address, which no object of the
  store had before; in particular for \<open>adam\<close> and \<open>Adam\<close>.
\<close>

theorem get_listed_spellings:
  "get (Str ''sgd'') h = (Inr (length (objs h)), h\<lparr>objs := objs h @ [SGD 0.001 (- 1)]\<rparr>)
   \<and> get (Str ''SGD'') h = (Inr (length (objs h)), h\<lparr>objs := objs h @ [SGD 0.001 (- 1)]\<rparr>)
   \<and> get (Str ''momentum'') h =
       (Inr (length (objs h)), h\<lparr>objs := objs h @ [Momentum 0.001 (- 1) 0.9 None]\<rparr>)
   \<and> get (Str ''Momentum'') h =
       (Inr (length (objs h)), h\<lparr>objs := objs h @ [Momentum 0.001 (- 1) 0.9 None]\<rparr>)
   \<and> get (Str ''nesterov_momentum'') h =
       (Inr (length (objs h)), h\<lparr>objs := objs h @ [NesterovMomentum 0.001 (- 1) 0.9 None]\<rparr>)
   \<and> get (Str ''NesterovMomentum'') h =
       (Inr (length (objs h)), h\<lparr>objs := objs h @ [NesterovMomentum 0.001 (- 1) 0.9 None]\<rparr>)
   \<and> get (Str ''adagrad'') h =
       (Inr (length (objs h)), h\<lparr>objs := objs h @ [Adagrad 0.001 (- 1) 0.000001 None]\<rparr>)
   \<and> get (Str ''Adagrad'') h =
       (Inr (length (objs h)), h\<lparr>objs := objs h @ [Adagrad 0.001 (- 1) 0.000001 None]\<rparr>)
   \<and> get (Str ''rmsprop'') h = (Inr (length (objs h)), h\<lparr>objs := objs h @ [RMSprop 0.001 (- 1)]\<rparr>)
   \<and> get (Str ''RMSprop'') h = (Inr (length (objs h)), h\<lparr>objs := objs h @ [RMSprop 0.001 (- 1)]\<rparr>)
   \<and> get (Str ''adadelta'') h = (Inr (length (objs h)), h\<lparr>objs := objs h @ [Adadelta 0.001 (- 1)]\<rparr>)
   \<and> get (Str ''Adadelta'') h = (Inr (length (objs h)), h\<lparr>objs := objs h @ [Adadelta 0.001 (- 1)]\<rparr>)
   \<and> get (Str ''adam'') h = (Inr (length (objs h)), h\<lparr>objs := objs h @ [Adam 0.001 (- 1)]\<rparr>)
   \<and> get (Str ''Adam'') h = (Inr (length (objs h)), h\<lparr>objs := objs h @ [Adam 0.001 (- 1)]\<rparr>)
   \<and> get (Str ''adamax'') h = (Inr (length (objs h)), h\<lparr>objs := objs h @ [Adamax 0.001 (- 1)]\<rparr>)
   \<and> get (Str ''Adamax'') h = (Inr (length (objs h)), h\<lparr>objs := objs h @ [Adamax 0.001 (- 1)]\<rparr>)"
  by (simp add: get_def new_obj_def)

section \<open>What an update call writes\<close>

text \<open>
  An in-place operation writes one array and keeps the number of arrays. A loop writes
  only parameters it has paired with a gradient (and, for Adagrad, cache arrays).
\<close>

lemma inplace_length: "inplace f p x A = (r, A') \<Longrightarrow> length A' = length A"
  by (auto simp: inplace_def split: if_splits)

lemma inplace_frame: "inplace f p x A = (r, A') \<Longrightarrow> a \<noteq> p \<Longrightarrow> A' ! a = A ! a"
  by (auto simp: inplace_def split: if_splits)

lemma SGD_loop_frame:
  "SGD_loop l c ps gs A = (r, A') \<Longrightarrow>
     length A' = length A \<and> (\<forall>a. a \<notin> set (take (length gs) ps) \<longrightarrow> A' ! a = A ! a)"
proof (induction l c ps gs A rule: SGD_loop.induct)
  case (1 l c p ps g gs A)
  obtain r1 A1 where s: "isub p (scale l (npdl_clip (A ! g) c)) A = (r1, A1)"
    by (cases "isub p (scale l (npdl_clip (A ! g) c)) A")
  have f: "length A1 = length A" "\<And>a. a \<noteq> p \<Longrightarrow> A1 ! a = A ! a"
    using s inplace_length inplace_frame by (auto simp: isub_def)
  show ?case
  proof (cases r1)
    case (Inl e)
    with 1 s f show ?thesis by auto
  next
    case (Inr u)
    with 1 s f show ?thesis by auto
  qed
qed auto


lemma Momentum_loop_frame:
  "Momentum_loop m l vs ps gs A = (r, A') \<Longrightarrow>
     length A' = length A \<and> (\<forall>a. a \<notin> set (take (length gs) ps) \<longrightarrow> A' ! a = A ! a)"
proof (induction m l vs ps gs A rule: Momentum_loop.induct)
  case (1 m l v vs p ps g gs A)
  show ?case
  proof (cases "broadcast (-) (scale m (A ! v)) (scale l (A ! g))")
    case (Inl e)
    with 1 show ?thesis by auto
  next
    case (Inr v')
    obtain r1 A1 where s: "iadd p v' A = (r1, A1)"
      by (cases "iadd p v' A")
    have f: "length A1 = length A" "\<And>a. a \<noteq> p \<Longrightarrow> A1 ! a = A ! a"
      using s inplace_length inplace_frame by (auto simp: iadd_def)
    show ?thesis
    proof (cases r1)
      case (Inl e)
      with 1 Inr s f show ?thesis by auto
    next
      case Inr2: (Inr u)
      with 1 Inr s f show ?thesis by auto
    qed
  qed
qed auto



lemma NesterovMomentum_loop_frame:
  "NesterovMomentum_loop m l vs ps gs A = (r, A') \<Longrightarrow>
     length A' = length A \<and> (\<forall>a. a \<notin> set (take (length gs) ps) \<longrightarrow> A' ! a = A ! a)"
proof (induction m l vs ps gs A rule: NesterovMomentum_loop.induct)
  case (1 m l v vs p ps g gs A)
  show ?case
  proof (cases "broadcast (-) (scale m (A ! v)) (scale l (A ! g))")
    case (Inl e)
    with 1 show ?thesis by auto
  next
    case v': (Inr v')
    show ?thesis
    proof (cases "broadcast (-) (scale m v') (scale l (A ! g))")
      case (Inl e)
      with 1 v' show ?thesis by auto
    next
      case d: (Inr d)
      obtain r1 A1 where s: "iadd p d A = (r1, A1)"
        by (cases "iadd p d A")
      have f: "length A1 = length A" "\<And>a. a \<noteq> p \<Longrightarrow> A1 ! a = A ! a"
        using s inplace_length inplace_frame by (auto simp: iadd_def)
      show ?thesis
      proof (cases r1)
        case (Inl e)
        with 1 v' d s f show ?thesis by auto
      next
        case (Inr u)
        with 1 v' d s f show ?thesis by auto
      qed
    qed
  qed
qed auto


lemma Adagrad_loop_frame:
  "Adagrad_loop l eps cs ps gs A = (r, A') \<Longrightarrow>
     length A' = length A \<and>
     (\<forall>a. a \<notin> set cs \<union> set (take (length gs) ps) \<longrightarrow> A' ! a = A ! a)"
proof (induction l eps cs ps gs A rule: Adagrad_loop.induct)
  case (1 l eps c cs p ps g gs A)
  obtain r1 A1 where s1: "iadd c (np_power (A ! g) 2) A = (r1, A1)"
    by (cases "iadd c (np_power (A ! g) 2) A")
  have f1: "length A1 = length A" "\<And>a. a \<noteq> c \<Longrightarrow> A1 ! a = A ! a"
    using s1 inplace_length inplace_frame by (auto simp: iadd_def)
  show ?case
  proof (cases r1)
    case (Inl e)
    with 1 s1 f1 show ?thesis by auto
  next
    case u1: (Inr u1)
    show ?thesis
    proof (cases "broadcast (/) (scale l (A1 ! g)) (sqrt_plus (A1 ! c) eps)")
      case (Inl e)
      with 1 s1 f1 u1 show ?thesis by auto
    next
      case d: (Inr d)
      obtain r2 A2 where s2: "isub p d A1 = (r2, A2)"
        by (cases "isub p d A1")
      have f2: "length A2 = length A1" "\<And>a. a \<noteq> p \<Longrightarrow> A2 ! a = A1 ! a"
        using s2 inplace_length inplace_frame by (auto simp: isub_def)
      show ?thesis
      proof (cases r2)
        case (Inl e)
        with 1 s1 f1 u1 d s2 f2 show ?thesis by auto
      next
        case (Inr u2)
        with 1 s1 f1 u1 d s2 f2 show ?thesis by auto
      qed
    qed
  qed
qed auto



lemma SGD_update_frame:
  assumes "SGD_update l c ps gs h = (r, h')"
  shows "objs h' = objs h" and "length (arrays h') = length (arrays h)"
    and "a \<notin> set (take (length gs) ps) \<Longrightarrow> arrays h' ! a = arrays h ! a"
  using assms SGD_loop_frame [of l c ps gs "arrays h"]
  by (auto simp: SGD_update_def split: prod.splits)

lemma Momentum_update_frame:
  assumes "Momentum_update self l c m vel ps gs h = (r, h')"
      and "a < length (arrays h)" and "a \<notin> set (take (length gs) ps)"
  shows "arrays h' ! a = arrays h ! a"
proof (cases vel)
  case None
  obtain r1 A1 where s: "Momentum_loop m l [length (arrays h)..<length (arrays h) + length ps] ps gs
       (arrays h @ map (\<lambda>r. zero_array (length (arrays h ! r))) ps) = (r1, A1)"
    by (meson surj_pair)
  from Momentum_loop_frame [OF s] assms(2,3) have "A1 ! a = arrays h ! a"
    by (simp add: nth_append)
  with assms(1) None s show ?thesis
    by (auto simp: Momentum_update_def zeros_like_def)
next
  case (Some vs)
  obtain r1 A1 where s: "Momentum_loop m l vs ps gs (arrays h) = (r1, A1)"
    by (meson surj_pair)
  from Momentum_loop_frame [OF s] assms(3) have "A1 ! a = arrays h ! a"
    by simp
  with assms(1) Some s show ?thesis
    by (auto simp: Momentum_update_def)
qed

lemma NesterovMomentum_update_frame:
  assumes "NesterovMomentum_update self l c m vel ps gs h = (r, h')"
      and "a < length (arrays h)" and "a \<notin> set (take (length gs) ps)"
  shows "arrays h' ! a = arrays h ! a"
proof (cases vel)
  case None
  obtain r1 A1 where s: "NesterovMomentum_loop m l [length (arrays h)..<length (arrays h) + length ps] ps gs
       (arrays h @ map (\<lambda>r. zero_array (length (arrays h ! r))) ps) = (r1, A1)"
    by (meson surj_pair)
  from NesterovMomentum_loop_frame [OF s] assms(2,3) have "A1 ! a = arrays h ! a"
    by (simp add: nth_append)
  with assms(1) None s show ?thesis
    by (auto simp: NesterovMomentum_update_def zeros_like_def)
next
  case (Some vs)
  obtain r1 A1 where s: "NesterovMomentum_loop m l vs ps gs (arrays h) = (r1, A1)"
    by (meson surj_pair)
  from NesterovMomentum_loop_frame [OF s] assms(3) have "A1 ! a = arrays h ! a"
    by simp
  with assms(1) Some s show ?thesis
    by (auto simp: NesterovMomentum_update_def)
qed

lemma Adagrad_update_frame:
  assumes "Adagrad_update self l c eps ch ps gs h = (r, h')"
      and "a < length (arrays h)" and "a \<notin> set (take (length gs) ps)"
      and "a \<notin> set (aux_arrays (Adagrad l c eps ch))"
  shows "arrays h' ! a = arrays h ! a"
proof (cases ch)
  case None
  obtain r1 A1 where s: "Adagrad_loop l eps [length (arrays h)..<length (arrays h) + length gs] ps gs
       (arrays h @ map (\<lambda>r. zero_array (length (arrays h ! r))) gs) = (r1, A1)"
    by (meson surj_pair)
  from Adagrad_loop_frame [OF s] assms(2,3) have "A1 ! a = arrays h ! a"
    by (simp add: nth_append)
  with assms(1) None s show ?thesis
    by (auto simp: Adagrad_update_def zeros_like_def)
next
  case (Some cs)
  obtain r1 A1 where s: "Adagrad_loop l eps cs ps gs (arrays h) = (r1, A1)"
    by (meson surj_pair)
  from Adagrad_loop_frame [OF s] assms(3,4) Some have "A1 ! a = arrays h ! a"
    by simp
  with assms(1) Some s show ?thesis
    by (auto simp: Adagrad_update_def)
qed

lemma update_frame_objs:
  assumes "update self ps gs h = (r, h')"
  shows "length (objs h') = length (objs h)"
    and "o' \<noteq> self \<Longrightarrow> objs h' ! o' = objs h ! o'"
  using assms
  by (auto simp: update_defs zeros_like_def split: optimizer.splits option.splits prod.splits)

lemma update_frame_length:
  assumes "update self ps gs h = (r, h')"
  shows "length (arrays h) \<le> length (arrays h')"
  using assms SGD_loop_frame Momentum_loop_frame NesterovMomentum_loop_frame Adagrad_loop_frame
  by (fastforce simp: update_defs zeros_like_def split: optimizer.splits option.splits prod.splits)

lemma update_frame_arrays:
  assumes "update self ps gs h = (r, h')"
      and "a < length (arrays h)" and "a \<notin> set (take (length gs) ps)"
      and "a \<notin> set (aux_arrays (objs h ! self))"
  shows "arrays h' ! a = arrays h ! a"
proof (cases "objs h ! self")
  case (SGD l c)
  with assms show ?thesis using SGD_update_frame(3) by (auto simp: update_def)
next
  case (Momentum l c m vel)
  with assms show ?thesis using Momentum_update_frame by (auto simp: update_def)
next
  case (NesterovMomentum l c m vel)
  with assms show ?thesis using NesterovMomentum_update_frame by (auto simp: update_def)
next
  case (Adagrad l c eps ch)
  with assms show ?thesis using Adagrad_update_frame by (auto simp: update_def)
qed (use assms in \<open>auto simp: update_def Optimizer_update_def\<close>)


section \<open>SGD\<close>

lemma length_npdl_clip: "length (npdl_clip g c) = length g"
  by (simp add: npdl_clip_def np_clip_def)

lemma isub_scale_clip:
  assumes "length (A ! g) = length (A ! p)"
  shows "isub p (scale l (npdl_clip (A ! g) c)) A = (Inr (), A[p := sgd_step l c (A ! p) (A ! g)])"
proof -
  have "map2 (-) (A ! p) (scale l (npdl_clip (A ! g) c)) = sgd_step l c (A ! p) (A ! g)"
    by (simp add: sgd_step_def scale_def zip_map2 case_prod_unfold)
  with assms show ?thesis
    by (simp add: isub_def inplace_def scale_def length_npdl_clip)
qed

lemma SGD_loop_post:
  assumes "length ps = length gs" and "distinct ps" and "set ps \<inter> set gs = {}"
      and "\<forall>i<length ps. ps ! i < length A \<and> length (A ! (gs ! i)) = length (A ! (ps ! i))"
  shows "\<exists>A'. SGD_loop l c ps gs A = (Inr (), A') \<and>
           (\<forall>i<length ps. A' ! (ps ! i) = sgd_step l c (A ! (ps ! i)) (A ! (gs ! i)))"
  using assms
proof (induction ps gs arbitrary: A rule: list_induct2)
  case Nil
  then show ?case by simp
next
  case (Cons p ps g gs)
  let ?A1 = "A[p := sgd_step l c (A ! p) (A ! g)]"
  from Cons.prems(3) have 0: "p < length A" "length (A ! g) = length (A ! p)"
    by auto
  have step: "isub p (scale l (npdl_clip (A ! g) c)) A = (Inr (), ?A1)"
    using 0(2) by (rule isub_scale_clip)
  have pre: "\<forall>i<length ps. ps ! i < length ?A1 \<and> length (?A1 ! (gs ! i)) = length (?A1 ! (ps ! i))"
  proof (intro allI impI)
    fix i assume i: "i < length ps"
    with Cons.prems(3) have "(p # ps) ! Suc i < length A \<and>
        length (A ! ((g # gs) ! Suc i)) = length (A ! ((p # ps) ! Suc i))"
      by (metis Suc_less_eq length_Cons)
    moreover have "ps ! i \<noteq> p" using Cons.prems(1) i by auto
    moreover have "gs ! i \<noteq> p" using Cons.prems(2) Cons.hyps i by auto
    ultimately show "ps ! i < length ?A1 \<and> length (?A1 ! (gs ! i)) = length (?A1 ! (ps ! i))"
      by simp
  qed
  from Cons.IH [OF _ _ pre] Cons.prems obtain A' where
    A': "SGD_loop l c ps gs ?A1 = (Inr (), A')"
        "\<forall>i<length ps. A' ! (ps ! i) = sgd_step l c (?A1 ! (ps ! i)) (?A1 ! (gs ! i))"
    by auto
  have run: "SGD_loop l c (p # ps) (g # gs) A = (Inr (), A')"
    using step A'(1) by simp
  have "A' ! ((p # ps) ! i) = sgd_step l c (A ! ((p # ps) ! i)) (A ! ((g # gs) ! i))"
    if i: "i < length (p # ps)" for i
  proof (cases i)
    case 0
    have "p \<notin> set (take (length gs) ps)"
      using Cons.prems(1) by (auto dest: in_set_takeD)
    with SGD_loop_frame [OF A'(1)] have "A' ! p = ?A1 ! p" by blast
    with 0 0(1) \<open>p < length A\<close> show ?thesis by simp
  next
    case (Suc j)
    with i have j: "j < length ps" by simp
    have "ps ! j \<noteq> p" using Cons.prems(1) j by auto
    moreover have "gs ! j \<noteq> p" using Cons.prems(2) Cons.hyps j by auto
    ultimately show ?thesis using A'(2) j Suc by simp
  qed
  with run show ?case by blast
qed


lemma sgd_step_nth:
  "length p = length g \<Longrightarrow> j < length g \<Longrightarrow>
     sgd_step l c p g ! j =
       p ! j - l * (if 0 < c then min (max (g ! j) (- c)) c else g ! j)"
  by (simp add: sgd_step_def npdl_clip_def np_clip_def)

lemma length_sgd_step: "length p = length g \<Longrightarrow> length (sgd_step l c p g) = length p"
  by (simp add: sgd_step_def length_npdl_clip)

lemma clip_magnitude: "0 < c \<Longrightarrow> \<bar>min (max x (- c)) c\<bar> \<le> (c :: real)"
  by (simp add: min_def max_def abs_if)

text \<open>
  C10. Let the parameters be distinct arrays, none of them a gradient, each of the
  shape of its gradient. Then \<open>SGD.update\<close> returns normally and no auxiliary state is
  allocated: the optimizer objects and the number of arrays are as before. Every
  element of every parameter ends as \<open>p - lr * clip(g)\<close>, where \<open>clip(g)\<close> is \<open>g\<close>
  itself when \<open>clip \<le> 0\<close> and \<open>g\<close> bounded into \<open>[-clip, clip]\<close> when \<open>clip > 0\<close>, so that
  the element then moves by at most \<open>|lr| * clip\<close>; every other array is unchanged. For
  \<open>p = 1.0\<close>, \<open>g = 2.0\<close>, \<open>lr = 0.1\<close> and clipping disabled the result is \<open>p = 0.8\<close>;
  for \<open>g = 5.0\<close> and \<open>clip = 1\<close> it is \<open>p = 0.9\<close>.
\<close>

theorem SGD_update_clipped_step:
  assumes "objs h ! self = SGD l c"
      and "length params = length grads" and "distinct params"
      and "set params \<inter> set grads = {}"
      and "\<forall>i<length params. params ! i < length (arrays h) \<and>
             length (arrays h ! (grads ! i)) = length (arrays h ! (params ! i))"
  shows "(case update self params grads h of
            (r, h') \<Rightarrow>
              r = Inr () \<and> objs h' = objs h \<and> length (arrays h') = length (arrays h) \<and>
              (\<forall>i<length params.
                 length (arrays h' ! (params ! i)) = length (arrays h ! (params ! i)) \<and>
                 (\<forall>j<length (arrays h ! (params ! i)).
                    arrays h' ! (params ! i) ! j =
                      arrays h ! (params ! i) ! j -
                      l * (if 0 < c then min (max (arrays h ! (grads ! i) ! j) (- c)) c
                           else arrays h ! (grads ! i) ! j) \<and>
                    (0 < c \<longrightarrow>
                       \<bar>arrays h' ! (params ! i) ! j - arrays h ! (params ! i) ! j\<bar> \<le> \<bar>l\<bar> * c))) \<and>
              (\<forall>a. a \<notin> set params \<longrightarrow> arrays h' ! a = arrays h ! a))
         \<and> update 0 [0] [1] \<lparr>arrays = [[1], [2]], objs = [SGD 0.1 (- 1)]\<rparr> =
             (Inr (), \<lparr>arrays = [[0.8], [2]], objs = [SGD 0.1 (- 1)]\<rparr>)
         \<and> update 0 [0] [1] \<lparr>arrays = [[1], [5]], objs = [SGD 0.1 1]\<rparr> =
             (Inr (), \<lparr>arrays = [[0.9], [5]], objs = [SGD 0.1 1]\<rparr>)"
proof -
  let ?A = "arrays h"
  from SGD_loop_post [OF assms(2-5), of l c] obtain A' where
    A': "SGD_loop l c params grads ?A = (Inr (), A')"
        "\<forall>i<length params. A' ! (params ! i) =
            sgd_step l c (?A ! (params ! i)) (?A ! (grads ! i))"
    by blast
  from SGD_loop_frame [OF A'(1)] have
    fr: "length A' = length ?A" "\<forall>a. a \<notin> set params \<longrightarrow> A' ! a = ?A ! a"
    by (auto dest: in_set_takeD)
  have run: "update self params grads h = (Inr (), h\<lparr>arrays := A'\<rparr>)"
    using assms(1) A'(1) by (simp add: update_def SGD_update_def)
  have elem: "length (A' ! (params ! i)) = length (?A ! (params ! i)) \<and>
      (\<forall>j<length (?A ! (params ! i)).
         A' ! (params ! i) ! j =
           ?A ! (params ! i) ! j -
           l * (if 0 < c then min (max (?A ! (grads ! i) ! j) (- c)) c else ?A ! (grads ! i) ! j) \<and>
         (0 < c \<longrightarrow> \<bar>A' ! (params ! i) ! j - ?A ! (params ! i) ! j\<bar> \<le> \<bar>l\<bar> * c))"
    if i: "i < length params" for i
  proof -
    let ?p = "?A ! (params ! i)" and ?g = "?A ! (grads ! i)"
    have lg: "length ?p = length ?g" using assms(5) i by simp
    have v: "A' ! (params ! i) = sgd_step l c ?p ?g" using A'(2) i by simp
    have "A' ! (params ! i) ! j =
           ?p ! j - l * (if 0 < c then min (max (?g ! j) (- c)) c else ?g ! j) \<and>
         (0 < c \<longrightarrow> \<bar>A' ! (params ! i) ! j - ?p ! j\<bar> \<le> \<bar>l\<bar> * c)"
      if j: "j < length ?p" for j
    proof -
      have e: "A' ! (params ! i) ! j =
           ?p ! j - l * (if 0 < c then min (max (?g ! j) (- c)) c else ?g ! j)"
        using v sgd_step_nth [OF lg, of j l c] j lg by simp
      have "\<bar>A' ! (params ! i) ! j - ?p ! j\<bar> \<le> \<bar>l\<bar> * c" if c: "0 < c"
      proof -
        have "\<bar>A' ! (params ! i) ! j - ?p ! j\<bar> = \<bar>l\<bar> * \<bar>min (max (?g ! j) (- c)) c\<bar>"
          using e c by (simp add: abs_mult)
        also have "\<dots> \<le> \<bar>l\<bar> * c"
          using clip_magnitude [OF c] by (simp add: mult_left_mono)
        finally show ?thesis .
      qed
      with e show ?thesis by blast
    qed
    moreover have "length (A' ! (params ! i)) = length ?p"
      using v lg by (simp add: length_sgd_step)
    ultimately show ?thesis by blast
  qed
  have ex: "update 0 [0] [1] \<lparr>arrays = [[1], [2]], objs = [SGD 0.1 (- 1)]\<rparr> =
             (Inr (), \<lparr>arrays = [[0.8], [2]], objs = [SGD 0.1 (- 1)]\<rparr>)"
      "update 0 [0] [1] \<lparr>arrays = [[1], [5]], objs = [SGD 0.1 1]\<rparr> =
             (Inr (), \<lparr>arrays = [[0.9], [5]], objs = [SGD 0.1 1]\<rparr>)"
    by (simp_all add: update_defs numpy_defs)
  have sel: "arrays (h\<lparr>arrays := A'\<rparr>) = A'" "objs (h\<lparr>arrays := A'\<rparr>) = objs h"
    by simp_all
  from elem fr ex show ?thesis
    unfolding run by (simp only: prod.case sel) blast
qed

theorem SGD_update_clipped_step_witness:
  "objs \<lparr>arrays = [[1], [5]], objs = [SGD 0.1 1]\<rparr> ! 0 = SGD 0.1 1
   \<and> length [0 :: ref] = length [1 :: ref] \<and> distinct [0 :: ref]
   \<and> set [0 :: ref] \<inter> set [1 :: ref] = {}
   \<and> fst (update 0 [0] [1] \<lparr>arrays = [[1], [5]], objs = [SGD 0.1 1]\<rparr>) = Inr ()
   \<and> arrays (snd (update 0 [0] [1] \<lparr>arrays = [[1], [5]], objs = [SGD 0.1 1]\<rparr>)) ! 0 ! 0 =
       1 - 0.1 * min (max 5 (- 1)) 1
   \<and> (1 :: real) - 0.1 * min (max 5 (- 1)) 1 = 0.9"
  using SGD_update_clipped_step [of "\<lparr>arrays = [[1], [5]], objs = [SGD 0.1 1]\<rparr>" 0 "0.1" 1 "[0]" "[1]"]
  by (simp split: prod.splits)

section \<open>Adagrad\<close>

lemma length_adagrad_cache: "length c = length g \<Longrightarrow> length (adagrad_cache c g) = length g"
  by (simp add: adagrad_cache_def)

lemma iadd_power:
  assumes "length (A ! c) = length (A ! g)"
  shows "iadd c (np_power (A ! g) 2) A = (Inr (), A[c := adagrad_cache (A ! c) (A ! g)])"
proof -
  have "map2 (+) (A ! c) (np_power (A ! g) 2) = adagrad_cache (A ! c) (A ! g)"
    by (simp add: adagrad_cache_def np_power_def zip_map2 case_prod_unfold)
  with assms show ?thesis
    by (simp add: iadd_def inplace_def np_power_def)
qed

lemma isub_quotient:
  assumes "length g = length c" and "length (A ! p) = length g"
  shows "broadcast (/) (scale l g) (sqrt_plus c eps) =
           Inr (map2 (/) (scale l g) (sqrt_plus c eps))"
    and "isub p (map2 (/) (scale l g) (sqrt_plus c eps)) A =
           (Inr (), A[p := adagrad_step l eps (A ! p) g c])"
proof -
  show "broadcast (/) (scale l g) (sqrt_plus c eps) =
           Inr (map2 (/) (scale l g) (sqrt_plus c eps))"
    using assms by (simp add: broadcast_def scale_def sqrt_plus_def)
  have "map2 (-) (A ! p) (map2 (/) (scale l g) (sqrt_plus c eps)) = adagrad_step l eps (A ! p) g c"
    by (simp add: adagrad_step_def scale_def sqrt_plus_def zip_map1 zip_map2 case_prod_unfold)
  with assms show "isub p (map2 (/) (scale l g) (sqrt_plus c eps)) A =
           (Inr (), A[p := adagrad_step l eps (A ! p) g c])"
    by (simp add: isub_def inplace_def scale_def sqrt_plus_def)
qed

lemma Adagrad_loop_step:
  assumes "c < length A" and "c \<noteq> p" and "c \<noteq> g"
      and "length (A ! c) = length (A ! g)" and "length (A ! p) = length (A ! g)"
  shows "Adagrad_loop l eps (c # cs) (p # ps) (g # gs) A =
           Adagrad_loop l eps cs ps gs
             (A[c := adagrad_cache (A ! c) (A ! g),
                p := adagrad_step l eps (A ! p) (A ! g) (adagrad_cache (A ! c) (A ! g))])"
proof -
  let ?c' = "adagrad_cache (A ! c) (A ! g)"
  let ?A1 = "A[c := ?c']"
  have 1: "iadd c (np_power (A ! g) 2) A = (Inr (), ?A1)"
    using assms(4) by (rule iadd_power)
  have 2: "?A1 ! g = A ! g" "?A1 ! c = ?c'" "?A1 ! p = A ! p"
    using assms(1-3) by simp_all
  have 3: "length (A ! g) = length ?c'"
    using assms(4) by (simp add: length_adagrad_cache)
  note q = isub_quotient [of "A ! g" ?c' ?A1 p l eps, unfolded 2, OF 3 assms(5)]
  show ?thesis
    by (simp add: 1 2 q)
qed


lemma Adagrad_loop_post:
  assumes "length cs = length ps" and "length ps = length gs"
      and "distinct cs" and "distinct ps"
      and "set cs \<inter> set ps = {}" and "set cs \<inter> set gs = {}" and "set ps \<inter> set gs = {}"
      and "\<forall>i<length ps. cs ! i < length A \<and> ps ! i < length A \<and>
             length (A ! (cs ! i)) = length (A ! (gs ! i)) \<and>
             length (A ! (ps ! i)) = length (A ! (gs ! i))"
  shows "\<exists>A'. Adagrad_loop l eps cs ps gs A = (Inr (), A') \<and>
           (\<forall>i<length ps.
              A' ! (cs ! i) = adagrad_cache (A ! (cs ! i)) (A ! (gs ! i)) \<and>
              A' ! (ps ! i) = adagrad_step l eps (A ! (ps ! i)) (A ! (gs ! i))
                                (adagrad_cache (A ! (cs ! i)) (A ! (gs ! i))))"
  using assms
proof (induction cs ps gs arbitrary: A rule: list_induct3)
  case Nil
  then show ?case by simp
next
  case (Cons c cs p ps g gs)
  let ?c' = "adagrad_cache (A ! c) (A ! g)"
  let ?p' = "adagrad_step l eps (A ! p) (A ! g) ?c'"
  let ?A2 = "A[c := ?c', p := ?p']"
  from Cons.prems(6) have hd: "c < length A" "p < length A"
      "length (A ! c) = length (A ! g)" "length (A ! p) = length (A ! g)"
    by auto
  have ne: "c \<noteq> p" "c \<noteq> g" "p \<noteq> g"
    using Cons.prems(3,4,5) by auto
  have step: "Adagrad_loop l eps (c # cs) (p # ps) (g # gs) A = Adagrad_loop l eps cs ps gs ?A2"
    using hd(1) ne(1,2) hd(3,4) by (rule Adagrad_loop_step)
  have tl: "cs ! i \<noteq> c \<and> cs ! i \<noteq> p \<and> ps ! i \<noteq> c \<and> ps ! i \<noteq> p \<and> gs ! i \<noteq> c \<and> gs ! i \<noteq> p
            \<and> cs ! i < length A \<and> ps ! i < length A
            \<and> length (A ! (cs ! i)) = length (A ! (gs ! i))
            \<and> length (A ! (ps ! i)) = length (A ! (gs ! i))"
    if i: "i < length ps" for i
  proof -
    have mem: "cs ! i \<in> set cs" "ps ! i \<in> set ps" "gs ! i \<in> set gs"
      using i Cons.hyps by simp_all
    from Cons.prems(6) i have "(c # cs) ! Suc i < length A \<and> (p # ps) ! Suc i < length A \<and>
        length (A ! ((c # cs) ! Suc i)) = length (A ! ((g # gs) ! Suc i)) \<and>
        length (A ! ((p # ps) ! Suc i)) = length (A ! ((g # gs) ! Suc i))"
      by (metis Suc_less_eq length_Cons)
    with mem Cons.prems(1-5) show ?thesis by auto
  qed
  have same: "?A2 ! (cs ! i) = A ! (cs ! i)" "?A2 ! (ps ! i) = A ! (ps ! i)" "?A2 ! (gs ! i) = A ! (gs ! i)"
    if "i < length ps" for i
    using tl [OF that] by simp_all
  have pre: "\<forall>i<length ps. cs ! i < length ?A2 \<and> ps ! i < length ?A2 \<and>
             length (?A2 ! (cs ! i)) = length (?A2 ! (gs ! i)) \<and>
             length (?A2 ! (ps ! i)) = length (?A2 ! (gs ! i))"
    using tl same by simp
  have "distinct cs" "distinct ps" "set cs \<inter> set ps = {}" "set cs \<inter> set gs = {}"
      "set ps \<inter> set gs = {}"
    using Cons.prems(1-5) by auto
  from Cons.IH [OF this pre] obtain A' where
    A': "Adagrad_loop l eps cs ps gs ?A2 = (Inr (), A')"
        "\<forall>i<length ps.
           A' ! (cs ! i) = adagrad_cache (?A2 ! (cs ! i)) (?A2 ! (gs ! i)) \<and>
           A' ! (ps ! i) = adagrad_step l eps (?A2 ! (ps ! i)) (?A2 ! (gs ! i))
                             (adagrad_cache (?A2 ! (cs ! i)) (?A2 ! (gs ! i)))"
    by blast
  have notin: "c \<notin> set cs \<union> set (take (length gs) ps)" "p \<notin> set cs \<union> set (take (length gs) ps)"
    using Cons.prems(1-3) by (auto dest: in_set_takeD)
  have heads: "A' ! c = ?c'" "A' ! p = ?p'"
    using Adagrad_loop_frame [OF A'(1)] notin hd(1,2) ne(1) by simp_all
  have "A' ! ((c # cs) ! i) = adagrad_cache (A ! ((c # cs) ! i)) (A ! ((g # gs) ! i)) \<and>
        A' ! ((p # ps) ! i) = adagrad_step l eps (A ! ((p # ps) ! i)) (A ! ((g # gs) ! i))
           (adagrad_cache (A ! ((c # cs) ! i)) (A ! ((g # gs) ! i)))"
    if i: "i < length (p # ps)" for i
  proof (cases i)
    case 0
    with heads show ?thesis by simp
  next
    case (Suc j)
    with i have j: "j < length ps" by simp
    with A'(2) same [OF j] Suc show ?thesis by simp
  qed
  with step A'(1) show ?case by auto
qed


lemma adagrad_cache_nth:
  "length c = length g \<Longrightarrow> j < length g \<Longrightarrow> adagrad_cache c g ! j = c ! j + (g ! j) ^ 2"
  by (simp add: adagrad_cache_def)

lemma adagrad_step_nth:
  "length p = length g \<Longrightarrow> length c = length g \<Longrightarrow> j < length g \<Longrightarrow>
     adagrad_step l eps p g c ! j = p ! j - l * g ! j / (sqrt (c ! j) + eps)"
  by (simp add: adagrad_step_def)

lemma rate_antimono:
  assumes "0 \<le> l" and "0 < eps" and "0 \<le> x" and "x \<le> y"
  shows "l / (sqrt y + eps) \<le> l / (sqrt x + eps)"
proof -
  have "0 < sqrt x + eps" using assms(2,3) by (simp add: add_nonneg_pos)
  moreover have "sqrt x + eps \<le> sqrt y + eps" using assms(4) by simp
  ultimately show ?thesis using assms(1) by (simp add: frac_le)
qed

lemma Adagrad_init_post:
  assumes "length ps = length gs" and "distinct ps" and "set ps \<inter> set gs = {}"
      and "\<forall>i<length ps. ps ! i < length A \<and> gs ! i < length A \<and>
             length (A ! (ps ! i)) = length (A ! (gs ! i))"
      and "cache_ok A ch ps gs"
      and "A1 = (case ch of None \<Rightarrow> snd (zeros_like gs A) | Some cs \<Rightarrow> A)"
  shows "length (cache_refs A ch gs) = length ps"
    and "distinct (cache_refs A ch gs)"
    and "set (cache_refs A ch gs) \<inter> set ps = {}"
    and "set (cache_refs A ch gs) \<inter> set gs = {}"
    and "\<forall>i<length ps. cache_refs A ch gs ! i < length A1 \<and> ps ! i < length A1 \<and>
           length (A1 ! (cache_refs A ch gs ! i)) = length (A1 ! (gs ! i)) \<and>
           length (A1 ! (ps ! i)) = length (A1 ! (gs ! i))"
    and "\<forall>i<length ps. A1 ! (cache_refs A ch gs ! i) = cache_before A ch gs i \<and>
           A1 ! (ps ! i) = A ! (ps ! i) \<and> A1 ! (gs ! i) = A ! (gs ! i)"
    and "\<forall>i<length ps. \<forall>j<length (cache_before A ch gs i). 0 \<le> cache_before A ch gs i ! j"
proof -
  have valid: "\<forall>x\<in>set ps. x < length A" "\<forall>x\<in>set gs. x < length A"
    using assms(1,4) by (auto simp: in_set_conv_nth)
  show "length (cache_refs A ch gs) = length ps"
    using assms(1,5) by (cases ch) (simp_all add: cache_refs_def)
  show "distinct (cache_refs A ch gs)"
    using assms(5) by (cases ch) (simp_all add: cache_refs_def)
  show "set (cache_refs A ch gs) \<inter> set ps = {}"
    using assms(5) valid(1) by (cases ch) (fastforce simp: cache_refs_def)+
  show "set (cache_refs A ch gs) \<inter> set gs = {}"
    using assms(5) valid(2) by (cases ch) (fastforce simp: cache_refs_def)+
  show "\<forall>i<length ps. cache_refs A ch gs ! i < length A1 \<and> ps ! i < length A1 \<and>
           length (A1 ! (cache_refs A ch gs ! i)) = length (A1 ! (gs ! i)) \<and>
           length (A1 ! (ps ! i)) = length (A1 ! (gs ! i))"
    using assms(1,4,5,6)
    by (cases ch) (auto simp: cache_refs_def zeros_like_def zero_array_def nth_append)
  show "\<forall>i<length ps. A1 ! (cache_refs A ch gs ! i) = cache_before A ch gs i \<and>
           A1 ! (ps ! i) = A ! (ps ! i) \<and> A1 ! (gs ! i) = A ! (gs ! i)"
    using assms(1,4,5,6)
    by (cases ch) (auto simp: cache_refs_def cache_before_def zeros_like_def nth_append)
  show "\<forall>i<length ps. \<forall>j<length (cache_before A ch gs i). 0 \<le> cache_before A ch gs i ! j"
    using assms(1,5)
    by (cases ch) (auto simp: cache_before_def zero_array_def)
qed


lemma Adagrad_update_post:
  assumes obj: "objs h ! self = Adagrad l clp eps ch" "self < length (objs h)"
      and len: "length ps = length gs" and dist: "distinct ps" and disj: "set ps \<inter> set gs = {}"
      and shp: "\<forall>i<length ps. ps ! i < length (arrays h) \<and> gs ! i < length (arrays h) \<and>
             length (arrays h ! (ps ! i)) = length (arrays h ! (gs ! i))"
      and ok: "cache_ok (arrays h) ch ps gs"
  shows "\<exists>h'. update self ps gs h = (Inr (), h') \<and>
           objs h' ! self = Adagrad l clp eps (Some (cache_refs (arrays h) ch gs)) \<and>
           (\<forall>i<length ps.
              arrays h' ! (cache_refs (arrays h) ch gs ! i) =
                adagrad_cache (cache_before (arrays h) ch gs i) (arrays h ! (gs ! i)) \<and>
              arrays h' ! (ps ! i) =
                adagrad_step l eps (arrays h ! (ps ! i)) (arrays h ! (gs ! i))
                  (adagrad_cache (cache_before (arrays h) ch gs i) (arrays h ! (gs ! i))) \<and>
              arrays h' ! (gs ! i) = arrays h ! (gs ! i) \<and>
              cache_refs (arrays h) ch gs ! i < length (arrays h'))"
proof -
  let ?A = "arrays h"
  let ?cs = "cache_refs ?A ch gs"
  define A1 where "A1 = (case ch of None \<Rightarrow> snd (zeros_like gs ?A) | Some cs \<Rightarrow> ?A)"
  note init = Adagrad_init_post [OF len dist disj shp ok A1_def]
  from Adagrad_loop_post [OF init(1) len init(2) dist init(3,4) disj init(5), of l eps]
  obtain A' where A': "Adagrad_loop l eps ?cs ps gs A1 = (Inr (), A')"
    "\<forall>i<length ps.
        A' ! (?cs ! i) = adagrad_cache (A1 ! (?cs ! i)) (A1 ! (gs ! i)) \<and>
        A' ! (ps ! i) = adagrad_step l eps (A1 ! (ps ! i)) (A1 ! (gs ! i))
                          (adagrad_cache (A1 ! (?cs ! i)) (A1 ! (gs ! i)))"
    by blast
  note fr = Adagrad_loop_frame [OF A'(1)]
  define h' where "h' = (case ch of
       None \<Rightarrow> \<lparr>arrays = A', objs = (objs h)[self := Adagrad l clp eps (Some ?cs)]\<rparr>
     | Some cs \<Rightarrow> h\<lparr>arrays := A'\<rparr>)"
  have run: "update self ps gs h = (Inr (), h')"
    using obj(1) A'(1)
    by (cases ch) (simp_all add: update_def Adagrad_update_def h'_def A1_def cache_refs_def zeros_like_def)
  have arr: "arrays h' = A'"
    by (cases ch) (simp_all add: h'_def)
  have ob: "objs h' ! self = Adagrad l clp eps (Some ?cs)"
    using obj by (cases ch) (simp_all add: h'_def cache_refs_def)
  have "A' ! (?cs ! i) = adagrad_cache (cache_before ?A ch gs i) (?A ! (gs ! i)) \<and>
        A' ! (ps ! i) = adagrad_step l eps (?A ! (ps ! i)) (?A ! (gs ! i))
           (adagrad_cache (cache_before ?A ch gs i) (?A ! (gs ! i))) \<and>
        A' ! (gs ! i) = ?A ! (gs ! i) \<and> ?cs ! i < length A'"
    if i: "i < length ps" for i
  proof -
    have "gs ! i \<in> set gs" using i len by simp
    then have "gs ! i \<notin> set ?cs \<union> set (take (length gs) ps)"
      using init(4) disj by (auto dest: in_set_takeD)
    with fr have "A' ! (gs ! i) = A1 ! (gs ! i)" by blast
    moreover have "?cs ! i < length A'" using fr init(5) i by simp
    ultimately show ?thesis using A'(2) init(6) i by simp
  qed
  with run arr ob show ?thesis by auto
qed


lemma length_cache_before:
  assumes "cache_ok A ch ps gs" and "i < length ps"
  shows "length (cache_before A ch gs i) = length (A ! (gs ! i))"
  using assms by (cases ch) (simp_all add: cache_before_def zero_array_def)

text \<open>
  C9. Let the parameters be distinct arrays, none of them a gradient, each of the
  shape of its gradient, and \<open>self.cache\<close> be \<open>None\<close> or as an earlier call left it;
  let \<open>lr \<ge> 0\<close> and \<open>epsilon > 0\<close>. Then \<open>Adagrad.update\<close> returns normally and leaves
  the cache in such a state again, so the statement applies to every call of a run.
  Each element of each accumulator gains the square of its gradient element and so
  does not decrease; the rate \<open>lr / (sqrt(c) + epsilon)\<close>, with epsilon added after the
  square root, does not increase from the value before the call to the value after
  it; and the parameter element loses \<open>lr * g\<close> divided by the new \<open>sqrt(c) + epsilon\<close>.
\<close>

theorem Adagrad_update_accumulates:
  assumes obj: "objs h ! self = Adagrad l clp eps ch" "self < length (objs h)"
      and len: "length ps = length gs" and dist: "distinct ps" and disj: "set ps \<inter> set gs = {}"
      and shp: "\<forall>i<length ps. ps ! i < length (arrays h) \<and> gs ! i < length (arrays h) \<and>
             length (arrays h ! (ps ! i)) = length (arrays h ! (gs ! i))"
      and ok: "cache_ok (arrays h) ch ps gs"
      and pos: "0 \<le> l" "0 < eps"
  shows "case update self ps gs h of
           (r, h') \<Rightarrow>
             r = Inr () \<and>
             objs h' ! self = Adagrad l clp eps (Some (cache_refs (arrays h) ch gs)) \<and>
             cache_ok (arrays h') (Some (cache_refs (arrays h) ch gs)) ps gs \<and>
             (\<forall>i<length ps. \<forall>j<length (arrays h ! (gs ! i)).
                arrays h' ! (cache_refs (arrays h) ch gs ! i) ! j =
                  cache_before (arrays h) ch gs i ! j + (arrays h ! (gs ! i) ! j) ^ 2 \<and>
                cache_before (arrays h) ch gs i ! j
                  \<le> arrays h' ! (cache_refs (arrays h) ch gs ! i) ! j \<and>
                l / (sqrt (arrays h' ! (cache_refs (arrays h) ch gs ! i) ! j) + eps)
                  \<le> l / (sqrt (cache_before (arrays h) ch gs i ! j) + eps) \<and>
                arrays h' ! (ps ! i) ! j =
                  arrays h ! (ps ! i) ! j -
                  l * arrays h ! (gs ! i) ! j /
                    (sqrt (arrays h' ! (cache_refs (arrays h) ch gs ! i) ! j) + eps))"
proof -
  let ?A = "arrays h"
  let ?cs = "cache_refs ?A ch gs"
  define A1 where "A1 = (case ch of None \<Rightarrow> snd (zeros_like gs ?A) | Some cs \<Rightarrow> ?A)"
  note init = Adagrad_init_post [OF len dist disj shp ok A1_def]
  from Adagrad_update_post [OF obj len dist disj shp ok] obtain h' where
    run: "update self ps gs h = (Inr (), h')"
    and ob: "objs h' ! self = Adagrad l clp eps (Some ?cs)"
    and post: "\<forall>i<length ps.
              arrays h' ! (?cs ! i) = adagrad_cache (cache_before ?A ch gs i) (?A ! (gs ! i)) \<and>
              arrays h' ! (ps ! i) =
                adagrad_step l eps (?A ! (ps ! i)) (?A ! (gs ! i))
                  (adagrad_cache (cache_before ?A ch gs i) (?A ! (gs ! i))) \<and>
              arrays h' ! (gs ! i) = ?A ! (gs ! i) \<and>
              ?cs ! i < length (arrays h')"
    by blast
  have elem: "arrays h' ! (?cs ! i) ! j = cache_before ?A ch gs i ! j + (?A ! (gs ! i) ! j) ^ 2 \<and>
        0 \<le> cache_before ?A ch gs i ! j \<and>
        arrays h' ! (ps ! i) ! j =
          ?A ! (ps ! i) ! j -
          l * ?A ! (gs ! i) ! j / (sqrt (arrays h' ! (?cs ! i) ! j) + eps) \<and>
        length (arrays h' ! (?cs ! i)) = length (?A ! (gs ! i))"
    if i: "i < length ps" and j: "j < length (?A ! (gs ! i))" for i j
  proof -
    let ?c = "cache_before ?A ch gs i" and ?g = "?A ! (gs ! i)" and ?p = "?A ! (ps ! i)"
    have lc: "length ?c = length ?g" using ok i by (rule length_cache_before)
    have lp: "length ?p = length ?g" using shp i by simp
    have lc': "length (adagrad_cache ?c ?g) = length ?g" using lc by (rule length_adagrad_cache)
    have "0 \<le> ?c ! j" using init(7) i j lc by simp
    moreover have "adagrad_cache ?c ?g ! j = ?c ! j + (?g ! j) ^ 2"
      using lc j by (rule adagrad_cache_nth)
    moreover have "adagrad_step l eps ?p ?g (adagrad_cache ?c ?g) ! j =
        ?p ! j - l * ?g ! j / (sqrt (adagrad_cache ?c ?g ! j) + eps)"
      using lp lc' j by (rule adagrad_step_nth)
    ultimately show ?thesis using post i lc' by simp
  qed
  have ok': "cache_ok (arrays h') (Some ?cs) ps gs"
  proof -
    have "?cs ! i < length (arrays h') \<and>
          length (arrays h' ! (?cs ! i)) = length (arrays h' ! (gs ! i)) \<and>
          (\<forall>j<length (arrays h' ! (?cs ! i)). 0 \<le> arrays h' ! (?cs ! i) ! j)"
      if i: "i < length ?cs" for i
    proof -
      from i init(1) have i': "i < length ps" by simp
      have l: "length (arrays h' ! (?cs ! i)) = length (?A ! (gs ! i))"
        using post i' ok length_cache_before [OF ok i'] by (simp add: length_adagrad_cache)
      have "0 \<le> arrays h' ! (?cs ! i) ! j" if "j < length (?A ! (gs ! i))" for j
        using elem [OF i' that] by simp
      with l post i' show ?thesis by simp
    qed
    with init(1-4) show ?thesis by simp
  qed
  have "arrays h' ! (?cs ! i) ! j = cache_before ?A ch gs i ! j + (?A ! (gs ! i) ! j) ^ 2 \<and>
        cache_before ?A ch gs i ! j \<le> arrays h' ! (?cs ! i) ! j \<and>
        l / (sqrt (arrays h' ! (?cs ! i) ! j) + eps)
          \<le> l / (sqrt (cache_before ?A ch gs i ! j) + eps) \<and>
        arrays h' ! (ps ! i) ! j =
          ?A ! (ps ! i) ! j -
          l * ?A ! (gs ! i) ! j / (sqrt (arrays h' ! (?cs ! i) ! j) + eps)"
    if i: "i < length ps" and j: "j < length (?A ! (gs ! i))" for i j
  proof -
    note e = elem [OF i j]
    have le: "cache_before ?A ch gs i ! j \<le> arrays h' ! (?cs ! i) ! j"
      using e by simp
    from rate_antimono [OF pos _ le] e
    have "l / (sqrt (arrays h' ! (?cs ! i) ! j) + eps)
          \<le> l / (sqrt (cache_before ?A ch gs i ! j) + eps)"
      by blast
    with e le show ?thesis by blast
  qed
  with run ob ok' show ?thesis by (simp only: prod.case) blast
qed

theorem Adagrad_update_accumulates_witness:
  "objs \<lparr>arrays = [[1], [4], [9]], objs = [Adagrad 0.1 (- 1) 1 (Some [2])]\<rparr> ! 0 =
      Adagrad 0.1 (- 1) 1 (Some [2])
   \<and> distinct [0 :: ref] \<and> set [0 :: ref] \<inter> set [1 :: ref] = {}
   \<and> cache_ok [[1], [4], [9]] (Some [2]) [0] [1]
   \<and> update 0 [0] [1] \<lparr>arrays = [[1], [4], [9]], objs = [Adagrad 0.1 (- 1) 1 (Some [2])]\<rparr> =
       (Inr (), \<lparr>arrays = [[1 - 0.4 / 6], [4], [25]], objs = [Adagrad 0.1 (- 1) 1 (Some [2])]\<rparr>)
   \<and> (0.1 :: real) / (sqrt 25 + 1) \<le> 0.1 / (sqrt 9 + 1)"
  using Adagrad_update_accumulates [of "\<lparr>arrays = [[1], [4], [9]], objs = [Adagrad 0.1 (- 1) 1 (Some [2])]\<rparr>"
      0 "0.1" "- 1" 1 "Some [2]" "[0]" "[1]"]
  by (simp add: update_defs numpy_defs cache_refs_def cache_before_def)

section \<open>Copies of an optimizer instance\<close>

lemma deepcopy_arrays_props:
  assumes "deepcopy_arrays as memo A = (bs, memo', A')"
      and "n \<le> length A" and "\<forall>a\<in>set as. a < n"
      and "\<forall>(a, b)\<in>set memo. a < n \<and> n \<le> b \<and> b < length A \<and> A ! b = A ! a"
  shows "length bs = length as \<and> length A \<le> length A' \<and>
         (\<forall>a<length A. A' ! a = A ! a) \<and>
         (\<forall>b\<in>set bs. n \<le> b \<and> b < length A') \<and>
         (\<forall>i<length as. A' ! (bs ! i) = A ! (as ! i))"
  using assms
proof (induction as arbitrary: memo A bs memo' A')
  case Nil
  then show ?case by simp
next
  case (Cons a as)
  have a: "a < n" using Cons.prems(3) by simp
  have as: "\<forall>a\<in>set as. a < n" using Cons.prems(3) by simp
  show ?case
  proof (cases "map_of memo a")
    case (Some b)
    obtain bs1 where run: "deepcopy_arrays as memo A = (bs1, memo', A')" and bs: "bs = b # bs1"
      using Cons.prems(1) Some by (auto split: prod.splits)
    from Some have "(a, b) \<in> set memo" by (rule map_of_SomeD)
    with Cons.prems(4) have b: "n \<le> b" "b < length A" "A ! b = A ! a" by auto
    note IH = Cons.IH [OF run Cons.prems(2) as Cons.prems(4)]
    have "A' ! ((b # bs1) ! i) = A ! ((a # as) ! i)" if "i < length (a # as)" for i
      using that IH b by (cases i) auto
    with IH b bs show ?thesis by auto
  next
    case None
    let ?A1 = "A @ [A ! a]"
    let ?memo1 = "(a, length A) # memo"
    obtain bs1 where run: "deepcopy_arrays as ?memo1 ?A1 = (bs1, memo', A')"
        and bs: "bs = length A # bs1"
      using Cons.prems(1) None by (auto split: prod.splits)
    have n1: "n \<le> length ?A1" using Cons.prems(2) by simp
    have m1: "\<forall>(x, y)\<in>set ?memo1. x < n \<and> n \<le> y \<and> y < length ?A1 \<and> ?A1 ! y = ?A1 ! x"
      using Cons.prems(2,4) a by (auto simp: nth_append)
    note IH = Cons.IH [OF run n1 as m1]
    have old: "A' ! x = A ! x" if "x < length A" for x
      using IH that by (auto simp: nth_append)
    have new: "A' ! length A = A ! a"
      using IH by (auto simp: nth_append)
    have "A' ! ((length A # bs1) ! i) = A ! ((a # as) ! i)" if i: "i < length (a # as)" for i
    proof (cases i)
      case 0
      with new show ?thesis by simp
    next
      case (Suc j)
      with i have j: "j < length as" by simp
      then have "as ! j < length A" using as Cons.prems(2) by (meson nth_mem order_less_le_trans)
      with IH j Suc show ?thesis by (simp add: nth_append)
    qed
    moreover have "length A \<le> length A'" using IH by simp
    moreover have "n \<le> length A \<and> length A < length A'" using IH Cons.prems(2) by simp
    ultimately show ?thesis using IH bs old by auto
  qed
qed


lemma aux_arrays_with_aux:
  "aux_attr ob = Some rs \<Longrightarrow> aux_arrays (with_aux ob (Some bs)) = bs"
  "aux_attr ob = Some rs \<Longrightarrow> aux_attr (with_aux ob (Some bs)) = Some bs"
  "aux_attr ob = Some rs \<Longrightarrow> aux_arrays ob = rs"
  "aux_attr ob = None \<Longrightarrow> aux_arrays ob = []"
  "with_aux (with_aux ob x) (aux_attr ob) = ob"
  "with_aux ob (aux_attr ob) = ob"
  by (cases ob; simp)+

lemma deepcopy_unfold:
  "deepcopy r h =
     (case deepcopy_attr (aux_attr (objs h ! r)) (arrays h) of
        (x, A) \<Rightarrow> new_obj (with_aux (objs h ! r) x) (h\<lparr>arrays := A\<rparr>))"
  by (cases "objs h ! r") (simp_all add: deepcopy_def deepcopy_attr_def)

lemma deepcopy_post:
  assumes "\<forall>a\<in>set (aux_arrays (objs h ! r)). a < length (arrays h)"
      and "get (Instance r) h = (res, h1)"
  shows "res = Inr (length (objs h)) \<and>
    objs h1 = objs h @ [objs h1 ! length (objs h)] \<and>
    with_aux (objs h1 ! length (objs h)) (aux_attr (objs h ! r)) = objs h ! r \<and>
    (aux_attr (objs h1 ! length (objs h)) = None) = (aux_attr (objs h ! r) = None) \<and>
    map ((!) (arrays h1)) (aux_arrays (objs h1 ! length (objs h))) =
      map ((!) (arrays h)) (aux_arrays (objs h ! r)) \<and>
    (\<forall>b\<in>set (aux_arrays (objs h1 ! length (objs h))).
        length (arrays h) \<le> b \<and> b < length (arrays h1)) \<and>
    length (arrays h) \<le> length (arrays h1) \<and>
    (\<forall>a<length (arrays h). arrays h1 ! a = arrays h ! a)"
proof (cases "aux_attr (objs h ! r)")
  case None
  let ?ob = "objs h ! r"
  from None have "get (Instance r) h = (Inr (length (objs h)), h\<lparr>objs := objs h @ [?ob]\<rparr>)"
    using aux_arrays_with_aux(6) [of ?ob]
    by (simp add: get_def deepcopy_unfold deepcopy_attr_def new_obj_def)
  with assms(2) have h1: "res = Inr (length (objs h))" "h1 = h\<lparr>objs := objs h @ [?ob]\<rparr>"
    by simp_all
  show ?thesis
    using None aux_arrays_with_aux(4) [OF None] aux_arrays_with_aux(6) [of ?ob]
    by (simp add: h1)
next
  case (Some rs)
  let ?ob = "objs h ! r"
  obtain bs memo' A' where dc: "deepcopy_arrays rs [] (arrays h) = (bs, memo', A')"
    by (metis surj_pair)
  have rs: "aux_arrays ?ob = rs" using Some by (rule aux_arrays_with_aux(3))
  with assms(1) have valid: "\<forall>a\<in>set rs. a < length (arrays h)" by simp
  from deepcopy_arrays_props [OF dc order_refl valid]
  have p: "length bs = length rs" "length (arrays h) \<le> length A'"
      "\<forall>a<length (arrays h). A' ! a = arrays h ! a"
      "\<forall>b\<in>set bs. length (arrays h) \<le> b \<and> b < length A'"
      "\<forall>i<length rs. A' ! (bs ! i) = arrays h ! (rs ! i)"
    by simp_all
  have g: "get (Instance r) h =
      (Inr (length (objs h)), \<lparr>arrays = A', objs = objs h @ [with_aux ?ob (Some bs)]\<rparr>)"
    using Some dc by (simp add: get_def deepcopy_unfold deepcopy_attr_def new_obj_def)
  have m: "map ((!) A') bs = map ((!) (arrays h)) rs"
    using p(1,5) by (simp add: list_eq_iff_nth_eq)
  from g assms(2) have h1: "res = Inr (length (objs h))"
      "h1 = \<lparr>arrays = A', objs = objs h @ [with_aux ?ob (Some bs)]\<rparr>"
    by simp_all
  have w: "with_aux (with_aux ?ob (Some bs)) (Some rs) = ?ob"
    using aux_arrays_with_aux(5) [of ?ob "Some bs"] Some by simp
  show ?thesis
    using p(2,3,4) m rs Some aux_arrays_with_aux(1,2) [OF Some, of bs] w
    by (simp add: h1)
qed


text \<open>
  C8. For an optimizer instance whose state arrays exist in the store, \<open>get\<close> returns
  the address of a new object, different from the instance's: of the same class and
  hyperparameters, with state arrays at fresh addresses that hold the values of the
  instance's state arrays, every array and object of the store before the call being
  unchanged. An \<open>update\<close> call on the copy, with parameters that are not state arrays
  of the instance, leaves the instance and the content of its state arrays as they
  were; and an \<open>update\<close> call on the instance, with parameters that are not state
  arrays of the copy, leaves the copy and the content of its state arrays as they were.
\<close>

theorem get_instance_independent_copy:
  assumes valid: "r < length (objs h)"
                 "\<forall>a\<in>set (aux_arrays (objs h ! r)). a < length (arrays h)"
      and copy: "get (Instance r) h = (res, h1)"
  shows "res = Inr (length (objs h)) \<and> length (objs h) \<noteq> r \<and>
    objs h1 = objs h @ [objs h1 ! length (objs h)] \<and>
    with_aux (objs h1 ! length (objs h)) (aux_attr (objs h ! r)) = objs h ! r \<and>
    (aux_attr (objs h1 ! length (objs h)) = None) = (aux_attr (objs h ! r) = None) \<and>
    map ((!) (arrays h1)) (aux_arrays (objs h1 ! length (objs h))) =
      map ((!) (arrays h)) (aux_arrays (objs h ! r)) \<and>
    (\<forall>b\<in>set (aux_arrays (objs h1 ! length (objs h))).
        length (arrays h) \<le> b \<and> b < length (arrays h1)) \<and>
    (\<forall>a<length (arrays h). arrays h1 ! a = arrays h ! a) \<and>
    (update (length (objs h)) ps gs h1 = (x, h2) \<and>
       set ps \<inter> set (aux_arrays (objs h ! r)) = {} \<longrightarrow>
         objs h2 ! r = objs h ! r \<and>
         (\<forall>a\<in>set (aux_arrays (objs h ! r)). arrays h2 ! a = arrays h ! a)) \<and>
    (update r ps' gs' h1 = (y, h3) \<and>
       set ps' \<inter> set (aux_arrays (objs h1 ! length (objs h))) = {} \<longrightarrow>
         objs h3 ! length (objs h) = objs h1 ! length (objs h) \<and>
         (\<forall>b\<in>set (aux_arrays (objs h1 ! length (objs h))). arrays h3 ! b = arrays h1 ! b))"
proof -
  let ?r' = "length (objs h)"
  note post = deepcopy_post [OF valid(2) copy]
  have ne: "?r' \<noteq> r" using valid(1) by simp
  have orig: "objs h1 ! r = objs h ! r"
    using post valid(1) by (metis nth_append)
  have fresh: "\<forall>b\<in>set (aux_arrays (objs h1 ! ?r')). length (arrays h) \<le> b \<and> b < length (arrays h1)"
    using post by blast
  have old: "\<forall>a<length (arrays h). arrays h1 ! a = arrays h ! a"
      and le: "length (arrays h) \<le> length (arrays h1)"
    using post by blast+
  have 1: "objs h2 ! r = objs h ! r \<and>
         (\<forall>a\<in>set (aux_arrays (objs h ! r)). arrays h2 ! a = arrays h ! a)"
    if u: "update ?r' ps gs h1 = (x, h2)"
      and d: "set ps \<inter> set (aux_arrays (objs h ! r)) = {}"
  proof -
    have "objs h2 ! r = objs h1 ! r"
      using update_frame_objs(2) [OF u, of r] ne by simp
    moreover have "arrays h2 ! a = arrays h ! a" if a: "a \<in> set (aux_arrays (objs h ! r))" for a
    proof -
      from a valid(2) have lt: "a < length (arrays h)" by simp
      with le have "a < length (arrays h1)" by simp
      moreover have "a \<notin> set (take (length gs) ps)" using a d by (auto dest: in_set_takeD)
      moreover have "a \<notin> set (aux_arrays (objs h1 ! ?r'))" using fresh lt by auto
      ultimately have "arrays h2 ! a = arrays h1 ! a"
        by (rule update_frame_arrays [OF u])
      with old lt show ?thesis by simp
    qed
    ultimately show ?thesis using orig by simp
  qed
  have 2: "objs h3 ! ?r' = objs h1 ! ?r' \<and>
         (\<forall>b\<in>set (aux_arrays (objs h1 ! ?r')). arrays h3 ! b = arrays h1 ! b)"
    if u: "update r ps' gs' h1 = (y, h3)"
      and d: "set ps' \<inter> set (aux_arrays (objs h1 ! ?r')) = {}"
  proof -
    have "objs h3 ! ?r' = objs h1 ! ?r'"
      using update_frame_objs(2) [OF u, of ?r'] ne by simp
    moreover have "arrays h3 ! b = arrays h1 ! b" if b: "b \<in> set (aux_arrays (objs h1 ! ?r'))" for b
    proof -
      from b fresh have bb: "length (arrays h) \<le> b" "b < length (arrays h1)" by auto
      have "b \<notin> set (take (length gs') ps')" using b d by (auto dest: in_set_takeD)
      moreover have "b \<notin> set (aux_arrays (objs h1 ! r))"
        using valid(2) bb(1) orig by auto
      ultimately show ?thesis
        using update_frame_arrays [OF u bb(2)] by blast
    qed
    ultimately show ?thesis by simp
  qed
  from post ne 1 2 show ?thesis by blast
qed

theorem get_instance_independent_copy_witness:
  "get (Instance 0) \<lparr>arrays = [[1], [4], [9]], objs = [Adagrad 0.1 (- 1) 1 (Some [2])]\<rparr> =
      (Inr 1, \<lparr>arrays = [[1], [4], [9], [9]],
               objs = [Adagrad 0.1 (- 1) 1 (Some [2]), Adagrad 0.1 (- 1) 1 (Some [3])]\<rparr>)
   \<and> update 1 [0] [1] \<lparr>arrays = [[1], [4], [9], [9]],
               objs = [Adagrad 0.1 (- 1) 1 (Some [2]), Adagrad 0.1 (- 1) 1 (Some [3])]\<rparr> =
      (Inr (), \<lparr>arrays = [[1 - 0.4 / 6], [4], [9], [25]],
               objs = [Adagrad 0.1 (- 1) 1 (Some [2]), Adagrad 0.1 (- 1) 1 (Some [3])]\<rparr>)
   \<and> update 0 [0] [1] \<lparr>arrays = [[1], [4], [9], [9]],
               objs = [Adagrad 0.1 (- 1) 1 (Some [2]), Adagrad 0.1 (- 1) 1 (Some [3])]\<rparr> =
      (Inr (), \<lparr>arrays = [[1 - 0.4 / 6], [4], [25], [9]],
               objs = [Adagrad 0.1 (- 1) 1 (Some [2]), Adagrad 0.1 (- 1) 1 (Some [3])]\<rparr>)
   \<and> set [0 :: ref] \<inter> set (aux_arrays (Adagrad 0.1 (- 1) 1 (Some [2]))) = {}
   \<and> set [0 :: ref] \<inter> set (aux_arrays (Adagrad 0.1 (- 1) 1 (Some [3]))) = {}
   \<and> [[1 - 0.4 / 6], [4], [9], [25 :: real]] ! 2 = [[1], [4], [9 :: real]] ! 2
   \<and> [[1 - 0.4 / 6], [4], [25], [9 :: real]] ! 3 = [[1], [4], [9], [9 :: real]] ! 3"
  using get_instance_independent_copy [of 0
      "\<lparr>arrays = [[1], [4], [9]], objs = [Adagrad 0.1 (- 1) 1 (Some [2])]\<rparr>"
      "Inr 1"
      "\<lparr>arrays = [[1], [4], [9], [9]],
               objs = [Adagrad 0.1 (- 1) 1 (Some [2]), Adagrad 0.1 (- 1) 1 (Some [3])]\<rparr>"
      "[0]" "[1]" "Inr ()"
      "\<lparr>arrays = [[1 - 0.4 / 6], [4], [9], [25]],
               objs = [Adagrad 0.1 (- 1) 1 (Some [2]), Adagrad 0.1 (- 1) 1 (Some [3])]\<rparr>"
      "[0]" "[1]" "Inr ()"
      "\<lparr>arrays = [[1 - 0.4 / 6], [4], [25], [9]],
               objs = [Adagrad 0.1 (- 1) 1 (Some [2]), Adagrad 0.1 (- 1) 1 (Some [3])]\<rparr>"]
  by (simp add: update_defs numpy_defs get_def deepcopy_def deepcopy_attr_def new_obj_def)

section \<open>Sequences of different lengths\<close>




lemma length_momentum_step:
  "length v = length g \<Longrightarrow> length p = length g \<Longrightarrow> length (momentum_step m l v p g) = length g"
  by (simp add: momentum_step_def scale_def)



lemma length_nesterov_step:
  "length v = length g \<Longrightarrow> length p = length g \<Longrightarrow> length (nesterov_step m l v p g) = length g"
  by (simp add: nesterov_step_def scale_def)



lemma take_disjoint_nth:
  assumes "set (take n xs) \<inter> set (take n ys) = {}" and "n \<le> length xs" and "n \<le> length ys"
      and "i < n" and "k < n"
  shows "xs ! i \<noteq> ys ! k"
proof -
  have "xs ! i \<in> set (take n xs)" using assms(2,4) by (metis in_set_conv_nth length_take min.absorb2 nth_take)
  moreover have "ys ! k \<in> set (take n ys)" using assms(3,5) by (metis in_set_conv_nth length_take min.absorb2 nth_take)
  ultimately show ?thesis using assms(1) by auto
qed













end
